theory Spec2Isabelle
  imports Complex_Main "HOL-Library.Signed_Division"
begin

chapter \<open>Shallow embedding of the excerpted Blender subsystems\<close>

text \<open>
  Conventions used throughout.
  \<^item> C \<^verbatim>\<open>float\<close>/\<^verbatim>\<open>double\<close> quantities are idealised as \<^typ>\<open>real\<close>: rounding, infinities and NaN are
    outside the model.
  \<^item> C \<^verbatim>\<open>int\<close> is \<^typ>\<open>int\<close>; division truncates towards zero (\<open>sdiv\<close>).
  \<^item> A bit mask built from an enum whose numeric values are declared in a header outside
    these sources is a set of the enum's constructors: \<^verbatim>\<open>flag |= X\<close> is a union,
    \<^verbatim>\<open>flag &= ~X\<close> a set difference and \<^verbatim>\<open>flag & X\<close> a membership test.
  \<^item> Heap objects are entries of a finite map from references to values; freeing an object
    removes its entry.
  \<^item> Library routines that live outside these sources are parameters of the model.
\<close>

type_synonym float3 = "real \<times> real \<times> real"

section \<open>Subsurface-scattering integration step (kernel\_subsurface.h)\<close>

text \<open>
  Modelled from the spec: the layout of the integrator state is declared by the kernel's state
  template, which is not part of these sources. The intersection record has the fields the
  kernel writes (distance \<open>t\<close>, barycentric coordinates \<open>u\<close> and \<open>v\<close>, geometric normal \<open>Ng\<close>,
  \<open>object\<close>, \<open>prim\<close> and \<open>type\<close> identifiers); the path record has the throughput and, in its
  extension, every other path field; the extension of the state stands for every other
  sub-record.
\<close>

record Intersection =
  isect_t :: real
  isect_u :: real
  isect_v :: real
  isect_Ng :: float3
  isect_object :: int
  isect_prim :: int
  isect_type :: int

record PathState =
  throughput :: float3

record ('p) IntegratorState =
  path :: "'p PathState_scheme"
  isect :: Intersection

text \<open>The sentinels \<^verbatim>\<open>OBJECT_NONE\<close>, \<^verbatim>\<open>PRIM_NONE\<close> and \<^verbatim>\<open>PRIMITIVE_NONE\<close> are macros of
  \<^verbatim>\<open>kernel_types.h\<close>; their values are parameters.\<close>

record KernelSentinels =
  OBJECT_NONE :: int
  PRIM_NONE :: int
  PRIMITIVE_NONE :: int

definition kernel_integrate_subsurface ::
  "KernelSentinels \<Rightarrow> ('p, 's) IntegratorState_scheme \<Rightarrow> ('p, 's) IntegratorState_scheme" where
  "kernel_integrate_subsurface k state =
    (let throughput0 = throughput (path state);
         s1 = state\<lparr>isect := (isect state)\<lparr>isect_t := 0\<rparr>\<rparr>;
         s2 = s1\<lparr>isect := (isect s1)\<lparr>isect_u := 0\<rparr>\<rparr>;
         s3 = s2\<lparr>isect := (isect s2)\<lparr>isect_v := 0\<rparr>\<rparr>;
         s4 = s3\<lparr>isect := (isect s3)\<lparr>isect_Ng := (0, 0, 0)\<rparr>\<rparr>;
         s5 = s4\<lparr>isect := (isect s4)\<lparr>isect_object := OBJECT_NONE k\<rparr>\<rparr>;
         s6 = s5\<lparr>isect := (isect s5)\<lparr>isect_prim := PRIM_NONE k\<rparr>\<rparr>;
         s7 = s6\<lparr>isect := (isect s6)\<lparr>isect_type := PRIMITIVE_NONE k\<rparr>\<rparr>
     in s7\<lparr>path := (path s7)\<lparr>throughput := throughput0\<rparr>\<rparr>)"

section \<open>Spreadsheet panel (space\_spreadsheet.cc)\<close>

record SpreadsheetColumnLayout =
  column_width :: int

record SpreadsheetLayout =
  index_column_width :: int
  title_row_height :: int
  row_height :: int
  columns :: "SpreadsheetColumnLayout list"

record ARegion =
  winx :: int
  winy :: int

text \<open>\<^verbatim>\<open>get_visible_rows\<close> writes its two results through pointers; the model returns the pair
  \<open>(first_row, max_visible_rows)\<close>. Both quotients are C integer divisions.\<close>

definition get_visible_rows :: "SpreadsheetLayout \<Rightarrow> ARegion \<Rightarrow> int \<Rightarrow> int \<times> int" where
  "get_visible_rows spreadsheet_layout region scroll_offset_y =
     ((- scroll_offset_y) sdiv row_height spreadsheet_layout,
      winy region sdiv row_height spreadsheet_layout + 1)"

text \<open>
  The loop \<^verbatim>\<open>for (const int i : IndexRange(first_row, max_visible_rows))\<close> with its
  \<^verbatim>\<open>if (i >= row_indices.size()) break;\<close> guard. The iterator runs from \<open>i\<close> until it equals
  \<open>stop = first_row + max_visible_rows\<close>; the result lists the values of \<open>i\<close> for which the body
  after the guard runs, that is, the indices at which \<^verbatim>\<open>row_indices[i]\<close> is read.
\<close>

function visible_row_loop :: "int \<Rightarrow> int \<Rightarrow> int \<Rightarrow> int list" where
  "visible_row_loop i stop n =
     (if i = stop then []
      else if i \<ge> n then []
      else i # visible_row_loop (i + 1) stop n)"
  by pat_completeness auto
termination
  by (relation "measure (\<lambda>(i, stop, n). nat (n - i))") auto

declare visible_row_loop.simps [simp del]

text \<open>A label button of the index column: the row requested, the value read from
  \<^verbatim>\<open>row_indices\<close> (\<open>None\<close> when the read is outside the span) and the button's rectangle.\<close>

record IndexButton =
  but_row :: int
  but_label :: "int option"
  but_x :: int
  but_y :: int
  but_width :: int
  but_height :: int

definition span_get :: "int list \<Rightarrow> int \<Rightarrow> int option" where
  "span_get xs i = (if 0 \<le> i \<and> i < int (length xs) then Some (xs ! nat i) else None)"

definition draw_row_indices ::
  "int \<Rightarrow> int list \<Rightarrow> ARegion \<Rightarrow> SpreadsheetLayout \<Rightarrow> IndexButton list" where
  "draw_row_indices scroll_offset_y row_indices region spreadsheet_layout =
     (let (first_row, max_visible_rows) =
            get_visible_rows spreadsheet_layout region scroll_offset_y
      in map (\<lambda>i. \<lparr>but_row = i,
                    but_label = span_get row_indices i,
                    but_x = 0,
                    but_y = winy region - title_row_height spreadsheet_layout
                            - (i + 1) * row_height spreadsheet_layout - scroll_offset_y,
                    but_width = index_column_width spreadsheet_layout,
                    but_height = row_height spreadsheet_layout\<rparr>)
           (visible_row_loop first_row (first_row + max_visible_rows)
              (int (length row_indices))))"

text \<open>A call of a column's cell drawer: the column, the row requested, the value read from
  \<^verbatim>\<open>row_indices\<close> and the cell rectangle \<open>(xmin, xmax, ymin, ymax)\<close>.\<close>

record CellCall =
  cell_column :: nat
  cell_row :: int
  cell_index :: "int option"
  cell_rect :: "int \<times> int \<times> int \<times> int"

fun draw_cell_columns ::
  "ARegion \<Rightarrow> SpreadsheetLayout \<Rightarrow> int list \<Rightarrow> int \<Rightarrow> int \<times> int \<Rightarrow> nat \<Rightarrow> int \<Rightarrow>
   SpreadsheetColumnLayout list \<Rightarrow> CellCall list" where
  "draw_cell_columns region spreadsheet_layout row_indices scroll_offset_y rows column_index left_x [] = []"
| "draw_cell_columns region spreadsheet_layout row_indices scroll_offset_y rows column_index left_x
     (column_layout # cols) =
     (let right_x = left_x + column_width column_layout;
          (first_row, max_visible_rows) = rows
      in map (\<lambda>i. let bottom_y = winy region - title_row_height spreadsheet_layout
                                   - (i + 1) * row_height spreadsheet_layout - scroll_offset_y;
                       top_y = bottom_y + row_height spreadsheet_layout
                   in \<lparr>cell_column = column_index,
                       cell_row = i,
                       cell_index = span_get row_indices i,
                       cell_rect = (left_x, right_x, bottom_y, top_y)\<rparr>)
           (visible_row_loop first_row (first_row + max_visible_rows)
              (int (length row_indices)))
         @ draw_cell_columns region spreadsheet_layout row_indices scroll_offset_y rows
             (Suc column_index) right_x cols)"

definition draw_cell_contents ::
  "ARegion \<Rightarrow> SpreadsheetLayout \<Rightarrow> int list \<Rightarrow> int \<Rightarrow> int \<Rightarrow> CellCall list" where
  "draw_cell_contents region spreadsheet_layout row_indices scroll_offset_x scroll_offset_y =
     draw_cell_columns region spreadsheet_layout row_indices scroll_offset_y
       (get_visible_rows spreadsheet_layout region scroll_offset_y)
       0 (index_column_width spreadsheet_layout - scroll_offset_x)
       (columns spreadsheet_layout)"


section \<open>Vector-stroke offset deformer (MOD\_gpenciloffset.c)\<close>

datatype OffsetFlag =
  GP_OFFSET_INVERT_LAYER | GP_OFFSET_INVERT_PASS | GP_OFFSET_INVERT_VGROUP
  | GP_OFFSET_INVERT_LAYERPASS | GP_OFFSET_INVERT_MATERIAL

record OffsetGpencilModifierData =
  offset_flag :: "OffsetFlag set"
  offset_loc :: float3
  offset_rot :: float3
  offset_scale :: float3

record bGPDspoint =
  pt_co :: float3
  pt_pressure :: real
  pt_strength :: real

text \<open>A stroke as the offset deformer sees it: the sampled points, the optional array of
  deform-vertex records (one per point) and the cached geometry that
  \<^verbatim>\<open>BKE_gpencil_stroke_geometry_update\<close> derives from the points.\<close>

record ('dv, 'g) offset_stroke =
  os_points :: "bGPDspoint list"
  os_dvert :: "'dv list option"
  os_geometry :: 'g

text \<open>Routines of other modules that \<^verbatim>\<open>deformPolyline\<close> calls: the stroke filter, the vertex-group
  lookup, the per-point weight and the geometry update.\<close>

record ('dv, 'g) offset_env =
  is_stroke_affected_by_modifier :: "('dv, 'g) offset_stroke \<Rightarrow> bool"
  BKE_object_defgroup_name_index :: int
  get_modifier_point_weight :: "'dv option \<Rightarrow> bool \<Rightarrow> int \<Rightarrow> real"
  stroke_geometry_update :: "bGPDspoint list \<Rightarrow> 'g"

definition mul_v3_v3fl :: "float3 \<Rightarrow> real \<Rightarrow> float3" where
  "mul_v3_v3fl a f = (case a of (a0, a1, a2) \<Rightarrow> (a0 * f, a1 * f, a2 * f))"

definition add_v3_fl :: "float3 \<Rightarrow> real \<Rightarrow> float3" where
  "add_v3_fl a f = (case a of (a0, a1, a2) \<Rightarrow> (a0 + f, a1 + f, a2 + f))"

text \<open>
  Modelled from the spec: \<^verbatim>\<open>eul_to_mat3\<close>, \<^verbatim>\<open>loc_eul_size_to_mat4\<close> and \<^verbatim>\<open>mul_m4_v3\<close> belong to
  the math library, which is not part of these sources. The composed transform rotates by the
  XYZ Euler angles, scales per axis and translates; a matrix \<open>m\<close> is indexed as the C array
  \<^verbatim>\<open>m[column][row]\<close>.
\<close>

definition eul_to_mat3 :: "float3 \<Rightarrow> nat \<Rightarrow> nat \<Rightarrow> real" where
  "eul_to_mat3 eul =
     (case eul of (e0, e1, e2) \<Rightarrow>
        let ci = cos e0; cj = cos e1; ch = cos e2;
            si = sin e0; sj = sin e1; sh = sin e2;
            cc = ci * ch; cs = ci * sh; sc = si * ch; ss = si * sh
        in (\<lambda>c r.
              if c = 0 then (if r = 0 then cj * ch else if r = 1 then cj * sh else - sj)
              else if c = 1 then
                (if r = 0 then sj * sc - cs else if r = 1 then sj * ss + cc else cj * si)
              else (if r = 0 then sj * cc + ss else if r = 1 then sj * cs - sc else cj * ci)))"

definition v3_nth :: "float3 \<Rightarrow> nat \<Rightarrow> real" where
  "v3_nth a i = (case a of (a0, a1, a2) \<Rightarrow> if i = 0 then a0 else if i = 1 then a1 else a2)"

definition loc_eul_size_to_mat4 :: "float3 \<Rightarrow> float3 \<Rightarrow> float3 \<Rightarrow> nat \<Rightarrow> nat \<Rightarrow> real" where
  "loc_eul_size_to_mat4 loc eul sz =
     (\<lambda>c r. if c < 3 \<and> r < 3 then eul_to_mat3 eul c r * v3_nth sz c
            else if c = 3 \<and> r < 3 then v3_nth loc r
            else if c = 3 \<and> r = 3 then 1
            else 0)"

definition mul_m4_v3 :: "(nat \<Rightarrow> nat \<Rightarrow> real) \<Rightarrow> float3 \<Rightarrow> float3" where
  "mul_m4_v3 m p =
     (case p of (x, y, z) \<Rightarrow>
        (x * m 0 0 + y * m 1 0 + z * m 2 0 + m 3 0,
         x * m 0 1 + y * m 1 1 + z * m 2 1 + m 3 1,
         x * m 0 2 + y * m 1 2 + z * m 2 2 + m 3 2))"

text \<open>The body of the loop of \<^verbatim>\<open>deformPolyline\<close> for one point whose weight is \<open>weight\<close>.\<close>

definition deform_point :: "OffsetGpencilModifierData \<Rightarrow> real \<Rightarrow> bGPDspoint \<Rightarrow> bGPDspoint" where
  "deform_point mmd weight pt =
     (if weight < 0 then pt
      else
        let loc = mul_v3_v3fl (offset_loc mmd) weight;
            rot = mul_v3_v3fl (offset_rot mmd) weight;
            scale = add_v3_fl (mul_v3_v3fl (offset_scale mmd) weight) 1;
            mat = loc_eul_size_to_mat4 loc rot scale;
            unit_scale = (v3_nth scale 0 + v3_nth scale 1 + v3_nth scale 2) / 3;
            pt1 = pt\<lparr>pt_pressure := pt_pressure pt * unit_scale\<rparr>
        in pt1\<lparr>pt_co := mul_m4_v3 mat (pt_co pt1)\<rparr>)"

definition point_weight ::
  "('dv, 'g) offset_env \<Rightarrow> OffsetGpencilModifierData \<Rightarrow> ('dv, 'g) offset_stroke \<Rightarrow> nat \<Rightarrow> real" where
  "point_weight env mmd gps i =
     get_modifier_point_weight env
       (case os_dvert gps of None \<Rightarrow> None | Some dv \<Rightarrow> Some (dv ! i))
       (GP_OFFSET_INVERT_VGROUP \<in> offset_flag mmd)
       (BKE_object_defgroup_name_index env)"

fun deform_points_loop ::
  "('dv, 'g) offset_env \<Rightarrow> OffsetGpencilModifierData \<Rightarrow> ('dv, 'g) offset_stroke \<Rightarrow>
   nat list \<Rightarrow> bGPDspoint list \<Rightarrow> bGPDspoint list" where
  "deform_points_loop env mmd gps [] pts = pts"
| "deform_points_loop env mmd gps (i # is) pts =
     deform_points_loop env mmd gps is
       (pts[i := deform_point mmd (point_weight env mmd gps i) (pts ! i)])"

definition deformPolyline ::
  "('dv, 'g) offset_env \<Rightarrow> OffsetGpencilModifierData \<Rightarrow> ('dv, 'g) offset_stroke \<Rightarrow>
   ('dv, 'g) offset_stroke" where
  "deformPolyline env mmd gps =
     (if \<not> is_stroke_affected_by_modifier env gps then gps
      else
        let pts = deform_points_loop env mmd gps [0..<length (os_points gps)] (os_points gps)
        in gps\<lparr>os_points := pts, os_geometry := stroke_geometry_update env pts\<rparr>)"


section \<open>Dynamic topology mesh engine (pbvh\_bmesh.c)\<close>

subsection \<open>Data\<close>

text \<open>Faults of the C code that end the run: a read through a null pointer, an array access
  outside its bounds, an access to a freed object, and (for the recursions that follow child
  offsets, which need not end on a malformed node array) the exhaustion of the recursion budget
  of the model.\<close>

datatype fault = NullDeref | OutOfBounds | OutOfFuel | UseAfterFree

datatype PBVHNodeFlags =
  PBVH_Leaf | PBVH_UpdateNormals | PBVH_UpdateBB | PBVH_UpdateOriginalBB
  | PBVH_UpdateDrawBuffers | PBVH_UpdateRedraw | PBVH_UpdateMask | PBVH_UpdateVisibility
  | PBVH_RebuildDrawBuffers | PBVH_FullyHidden | PBVH_FullyMasked | PBVH_FullyUnmasked
  | PBVH_UpdateTopology | PBVH_UpdateColor | PBVH_Delete | PBVH_UpdateCurvatureDir
  | PBVH_UpdateTris

datatype PBVHTopologyUpdateMode = PBVH_Subdivide | PBVH_Collapse | PBVH_Cleanup

definition DYNTOPO_NODE_NONE :: int where
  "DYNTOPO_NODE_NONE = - 1"

definition DYNTOPO_MAX_ITER :: int where
  "DYNTOPO_MAX_ITER = 4096"

text \<open>The half-edge mesh as far as this file reads and writes it. Vertices and faces are
  references (\<^typ>\<open>nat\<close>); \<open>face_verts f\<close> lists the vertices of the loop cycle of \<open>f\<close> from
  \<^verbatim>\<open>l_first\<close>; \<open>vert_node\<close> and \<open>face_node\<close> are the home-node tags stored in the custom-data
  slots \<^verbatim>\<open>cd_vert_node_offset\<close> and \<^verbatim>\<open>cd_face_node_offset\<close>; \<open>vert_mask\<close> is
  \<^verbatim>\<open>DYNTOPO_MASK\<close>; \<open>cd_paint_mask_offset\<close> is the offset that \<^verbatim>\<open>CustomData_get_offset\<close>
  reports for the paint-mask layer (\<open>- 1\<close> when the mesh has none).\<close>

record BMesh =
  vert_co :: "nat \<Rightarrow> float3"
  vert_mask :: "nat \<Rightarrow> real"
  vert_hidden :: "nat \<Rightarrow> bool"
  vert_node :: "nat \<Rightarrow> int"
  face_verts :: "nat \<Rightarrow> nat list"
  face_hidden :: "nat \<Rightarrow> bool"
  face_node :: "nat \<Rightarrow> int"
  face_index :: "nat \<Rightarrow> int"
  cd_paint_mask_offset :: int

record BB =
  bmin :: float3
  bmax :: float3

text \<open>A \<^verbatim>\<open>TableGSet *\<close> field is \<open>None\<close> when null and otherwise the list of its keys in
  insertion order.\<close>

record PBVHNode =
  flag :: "PBVHNodeFlags set"
  children_offset :: int
  bm_unique_verts :: "nat list option"
  bm_other_verts :: "nat list option"
  bm_faces :: "nat list option"
  vb :: BB
  orig_vb :: BB
  subtree_tottri :: int
  draw_buffers :: "nat option"
  layer_disp :: "nat option"

record PBVH =
  nodes :: "PBVHNode list"
  leaf_limit :: int
  bm_min_edge_len :: real
  bm_max_edge_len :: real
  bm :: BMesh

text \<open>The bounding-box helpers, the node-array growth and the two node-flag setters are
  defined in \<^verbatim>\<open>pbvh.c\<close>, outside these sources; they are parameters. \<open>grown_node\<close> is the
  content of a node that \<^verbatim>\<open>pbvh_grow_nodes\<close> has just appended.\<close>

record pbvh_env =
  BB_reset :: BB
  BB_expand :: "BB \<Rightarrow> float3 \<Rightarrow> BB"
  BB_expand_with_bb :: "BB \<Rightarrow> BB \<Rightarrow> BB"
  BB_widest_axis :: "BB \<Rightarrow> nat"
  BBC_centroid :: "BB \<Rightarrow> float3"
  grown_node :: PBVHNode
  BKE_pbvh_node_mark_rebuild_draw :: "PBVHNode \<Rightarrow> PBVHNode"
  BKE_pbvh_node_fully_hidden_set :: "PBVHNode \<Rightarrow> bool \<Rightarrow> PBVHNode"

text \<open>\<^verbatim>\<open>BLI_table_gset_add\<close> and \<^verbatim>\<open>BLI_table_gset_insert\<close> (the latter for keys known to be
  absent).\<close>

definition gset_add :: "nat list \<Rightarrow> nat \<Rightarrow> nat list" where
  "gset_add ks k = (if k \<in> set ks then ks else ks @ [k])"


subsection \<open>Edge queue statistics and the throttle ratio\<close>

definition MAX2 :: "real \<Rightarrow> real \<Rightarrow> real" where
  "MAX2 a b = (if a > b then a else b)"

definition MIN2 :: "real \<Rightarrow> real \<Rightarrow> real" where
  "MIN2 a b = (if a < b then a else b)"

definition len_squared_v3v3 :: "float3 \<Rightarrow> float3 \<Rightarrow> real" where
  "len_squared_v3v3 a b =
     (case a of (a0, a1, a2) \<Rightarrow> case b of (b0, b1, b2) \<Rightarrow>
        (b0 - a0) * (b0 - a0) + (b1 - a1) * (b1 - a1) + (b2 - a2) * (b2 - a2))"

definition len_v3v3 :: "float3 \<Rightarrow> float3 \<Rightarrow> real" where
  "len_v3v3 a b = sqrt (len_squared_v3v3 a b)"

text \<open>The context of one topology update: the queue (priority and vertex pair of every
  entry) and the running edge-length statistics.\<close>

record EdgeQueueContext =
  q_heap :: "(real \<times> nat \<times> nat) list"
  cd_vert_mask_offset :: int
  avg_elen :: real
  max_elen :: real
  min_elen :: real
  totedge :: real

definition check_mask :: "BMesh \<Rightarrow> nat \<Rightarrow> bool" where
  "check_mask m vx = (vert_mask m vx < 1)"

definition edge_queue_insert ::
  "EdgeQueueContext \<Rightarrow> BMesh \<Rightarrow> nat \<times> nat \<Rightarrow> real \<Rightarrow> EdgeQueueContext" where
  "edge_queue_insert eq_ctx m e priority =
     (case e of (e_v1, e_v2) \<Rightarrow>
        if (cd_vert_mask_offset eq_ctx = - 1 \<or> (check_mask m e_v1 \<or> check_mask m e_v2))
           \<and> \<not> (vert_hidden m e_v1 \<or> vert_hidden m e_v2)
        then
          let dis = len_v3v3 (vert_co m e_v1) (vert_co m e_v2)
          in eq_ctx\<lparr>avg_elen := avg_elen eq_ctx + dis,
                    max_elen := MAX2 (max_elen eq_ctx) dis,
                    min_elen := MIN2 (min_elen eq_ctx) dis,
                    totedge := totedge eq_ctx + 1,
                    q_heap := q_heap eq_ctx @ [(priority, e_v1, e_v2)]\<rparr>
        else eq_ctx)"

definition calc_weighted_edge_split :: "BMesh \<Rightarrow> nat \<Rightarrow> nat \<Rightarrow> real" where
  "calc_weighted_edge_split m a b = len_squared_v3v3 (vert_co m a) (vert_co m b)"

definition calc_weighted_edge_collapse :: "BMesh \<Rightarrow> nat \<Rightarrow> nat \<Rightarrow> real" where
  "calc_weighted_edge_collapse m a b = len_squared_v3v3 (vert_co m a) (vert_co m b)"

text \<open>The SKINNY\_EDGE\_FIX blocks of \<^verbatim>\<open>BKE_pbvh_bmesh_update_topology\<close>: the value of the local
  \<^verbatim>\<open>ratio\<close> after the block, from its value before.\<close>

definition collapse_throttle_ratio :: "PBVH \<Rightarrow> EdgeQueueContext \<Rightarrow> real \<Rightarrow> real" where
  "collapse_throttle_ratio pbvh eq_ctx ratio =
     (if totedge eq_ctx > 0 then
        let avg = avg_elen eq_ctx / totedge eq_ctx;
            emax = (if max_elen eq_ctx = 0 then 0.0001 else max_elen eq_ctx)
        in if bm_min_edge_len pbvh > 0 \<and> avg > 0
           then MIN2 (MAX2 (avg / (bm_min_edge_len pbvh * 0.5 + emax * 0.5)) 0.25) 5.0
           else ratio
      else ratio)"

definition subdivide_throttle_ratio :: "PBVH \<Rightarrow> EdgeQueueContext \<Rightarrow> real \<Rightarrow> real" where
  "subdivide_throttle_ratio pbvh eq_ctx ratio =
     (if totedge eq_ctx > 0 then
        let avg = avg_elen eq_ctx / totedge eq_ctx;
            emin = (if min_elen eq_ctx = 0 then 0.0001 else min_elen eq_ctx)
        in if avg > 0
           then MIN2 (MAX2 ((bm_max_edge_len pbvh * 0.5 + emin * 0.5) / avg) 0.05) 1.0
           else ratio
      else ratio)"

text \<open>The C cast \<^verbatim>\<open>(int)\<close> of a float truncates towards zero.\<close>

definition float_to_int :: "real \<Rightarrow> int" where
  "float_to_int x = (if x \<ge> 0 then \<lfloor>x\<rfloor> else \<lceil>x\<rceil>)"


subsection \<open>Splitting a leaf that is over the limit\<close>












subsection \<open>The topology-update entry point\<close>

text \<open>The mesh operations that \<^verbatim>\<open>BKE_pbvh_bmesh_update_topology\<close> drives are parameters: the
  parallel discovery tasks of the two queue constructors (each returns the state it leaves
  and the edges it collected, in the order in which the constructor then inserts them), the
  two drain loops and the valence cleanup (each returns the state and whether it modified the
  mesh). \<open>'dab\<close> stands for the brush arguments (centre, view normal, radius and the two
  switches), which the entry point only passes on.\<close>

record 'dab topo_ops =
  short_edge_queue_task :: "'dab \<Rightarrow> PBVH \<Rightarrow> PBVH \<times> (nat \<times> nat) list"
  long_edge_queue_task :: "'dab \<Rightarrow> PBVH \<Rightarrow> PBVH \<times> (nat \<times> nat) list"
  pbvh_bmesh_collapse_short_edges :: "EdgeQueueContext \<Rightarrow> PBVH \<Rightarrow> int \<Rightarrow> PBVH \<times> bool"
  pbvh_bmesh_subdivide_long_edges :: "EdgeQueueContext \<Rightarrow> PBVH \<Rightarrow> int \<Rightarrow> PBVH \<times> bool"
  cleanup_valence_3_4 :: "'dab \<Rightarrow> PBVH \<Rightarrow> PBVH \<times> bool"

definition short_edge_queue_create ::
  "'dab topo_ops \<Rightarrow> 'dab \<Rightarrow> PBVH \<Rightarrow> EdgeQueueContext \<Rightarrow> PBVH \<times> EdgeQueueContext" where
  "short_edge_queue_create ops dab pbvh eq_ctx =
     (let (pbvh1, edges) = short_edge_queue_task ops dab pbvh
      in (pbvh1,
          foldl (\<lambda>q e. edge_queue_insert q (bm pbvh1) e
                          (calc_weighted_edge_collapse (bm pbvh1) (fst e) (snd e)))
            (eq_ctx\<lparr>q_heap := []\<rparr>) edges))"

definition long_edge_queue_create ::
  "'dab topo_ops \<Rightarrow> 'dab \<Rightarrow> PBVH \<Rightarrow> EdgeQueueContext \<Rightarrow> PBVH \<times> EdgeQueueContext" where
  "long_edge_queue_create ops dab pbvh eq_ctx =
     (let (pbvh1, edges) = long_edge_queue_task ops dab pbvh
      in (pbvh1,
          foldl (\<lambda>q e. edge_queue_insert q (bm pbvh1) e
                          (- calc_weighted_edge_split (bm pbvh1) (fst e) (snd e)))
            (eq_ctx\<lparr>q_heap := []\<rparr>) edges))"

text \<open>The locals of the entry point that live across its blocks: the state, the queue context,
  \<^verbatim>\<open>ratio\<close>, \<^verbatim>\<open>modified\<close>, and the \<^verbatim>\<open>max_steps\<close> of the block that ran last.\<close>

record topo_state =
  ts_pbvh :: PBVH
  ts_eq_ctx :: EdgeQueueContext
  ts_ratio :: real
  ts_modified :: bool
  ts_max_steps :: int

definition topo_begin :: "PBVH \<Rightarrow> topo_state" where
  "topo_begin pbvh =
     \<lparr>ts_pbvh = pbvh,
      ts_eq_ctx = \<lparr>q_heap = [], cd_vert_mask_offset = cd_paint_mask_offset (bm pbvh),
                   avg_elen = 0, max_elen = - (10 ^ 17), min_elen = 10 ^ 17, totedge = 0\<rparr>,
      ts_ratio = 1,
      ts_modified = False,
      ts_max_steps = 0\<rparr>"

definition collapse_pass :: "'dab topo_ops \<Rightarrow> 'dab \<Rightarrow> topo_state \<Rightarrow> topo_state" where
  "collapse_pass ops dab s =
     (let (pbvh1, eq1) = short_edge_queue_create ops dab (ts_pbvh s) (ts_eq_ctx s);
          ratio = collapse_throttle_ratio pbvh1 eq1 (ts_ratio s);
          max_steps = float_to_int (real_of_int DYNTOPO_MAX_ITER * ratio);
          (pbvh2, m) = pbvh_bmesh_collapse_short_edges ops eq1 pbvh1 max_steps
      in \<lparr>ts_pbvh = pbvh2, ts_eq_ctx = eq1, ts_ratio = ratio,
          ts_modified = (ts_modified s \<or> m), ts_max_steps = max_steps\<rparr>)"

definition subdivide_pass :: "'dab topo_ops \<Rightarrow> 'dab \<Rightarrow> topo_state \<Rightarrow> topo_state" where
  "subdivide_pass ops dab s =
     (let (pbvh1, eq1) = long_edge_queue_create ops dab (ts_pbvh s) (ts_eq_ctx s);
          ratio = subdivide_throttle_ratio pbvh1 eq1 (ts_ratio s);
          max_steps = float_to_int (real_of_int DYNTOPO_MAX_ITER * ratio);
          (pbvh2, m) = pbvh_bmesh_subdivide_long_edges ops eq1 pbvh1 max_steps
      in \<lparr>ts_pbvh = pbvh2, ts_eq_ctx = eq1, ts_ratio = ratio,
          ts_modified = (ts_modified s \<or> m), ts_max_steps = max_steps\<rparr>)"

definition cleanup_pass :: "'dab topo_ops \<Rightarrow> 'dab \<Rightarrow> topo_state \<Rightarrow> topo_state" where
  "cleanup_pass ops dab s =
     (let (pbvh1, m) = cleanup_valence_3_4 ops dab (ts_pbvh s)
      in s\<lparr>ts_pbvh := pbvh1, ts_modified := (ts_modified s \<or> m)\<rparr>)"

text \<open>The three mode blocks, in the order of the source.\<close>

definition topo_passes ::
  "'dab topo_ops \<Rightarrow> PBVHTopologyUpdateMode set \<Rightarrow> 'dab \<Rightarrow> PBVH \<Rightarrow> topo_state" where
  "topo_passes ops mode dab pbvh =
     (let s0 = topo_begin pbvh;
          s1 = (if PBVH_Collapse \<in> mode then collapse_pass ops dab s0 else s0);
          s2 = (if PBVH_Subdivide \<in> mode then subdivide_pass ops dab s1 else s1);
          s3 = (if PBVH_Cleanup \<in> mode then cleanup_pass ops dab s2 else s2)
      in s3)"







text \<open>A one-leaf tree with two faces and a leaf limit of one, and operations that leave the
  tree alone and record the order in which they ran in \<open>bm_max_edge_len\<close> (the collapse doubles
  it and reports a modification, the subdivision adds one, the cleanup triples it).\<close>

definition example_pbvh_env :: pbvh_env where
  "example_pbvh_env =
     \<lparr>BB_reset = \<lparr>bmin = (0, 0, 0), bmax = (0, 0, 0)\<rparr>,
      BB_expand = (\<lambda>b co. b),
      BB_expand_with_bb = (\<lambda>b b2. b),
      BB_widest_axis = (\<lambda>b. 0),
      BBC_centroid = (\<lambda>b. bmin b),
      grown_node = \<lparr>flag = {}, children_offset = 0, bm_unique_verts = None,
                    bm_other_verts = None, bm_faces = None,
                    vb = \<lparr>bmin = (0, 0, 0), bmax = (0, 0, 0)\<rparr>,
                    orig_vb = \<lparr>bmin = (0, 0, 0), bmax = (0, 0, 0)\<rparr>,
                    subtree_tottri = 0, draw_buffers = None, layer_disp = None\<rparr>,
      BKE_pbvh_node_mark_rebuild_draw =
        (\<lambda>n. n\<lparr>flag := flag n \<union> {PBVH_RebuildDrawBuffers, PBVH_UpdateDrawBuffers,
                                     PBVH_UpdateRedraw}\<rparr>),
      BKE_pbvh_node_fully_hidden_set =
        (\<lambda>n h. if h then n\<lparr>flag := flag n \<union> {PBVH_FullyHidden}\<rparr>
                else n\<lparr>flag := flag n - {PBVH_FullyHidden}\<rparr>)\<rparr>"

definition example_mesh :: BMesh where
  "example_mesh =
     \<lparr>vert_co = (\<lambda>v. (real v, 0, 0)), vert_mask = (\<lambda>v. 0), vert_hidden = (\<lambda>v. False),
      vert_node = (\<lambda>v. 0), face_verts = (\<lambda>f. [f, f + 1, f + 2]),
      face_hidden = (\<lambda>f. False), face_node = (\<lambda>f. 0), face_index = (\<lambda>f. 0),
      cd_paint_mask_offset = - 1\<rparr>"

definition example_pbvh :: PBVH where
  "example_pbvh =
     \<lparr>nodes = [\<lparr>flag = {PBVH_Leaf, PBVH_UpdateTopology}, children_offset = 0,
                bm_unique_verts = Some [0, 1, 2, 3], bm_other_verts = Some [],
                bm_faces = Some [0, 1],
                vb = \<lparr>bmin = (0, 0, 0), bmax = (3, 0, 0)\<rparr>,
                orig_vb = \<lparr>bmin = (0, 0, 0), bmax = (3, 0, 0)\<rparr>,
                subtree_tottri = 0, draw_buffers = None, layer_disp = None\<rparr>],
      leaf_limit = 1, bm_min_edge_len = 1, bm_max_edge_len = 2, bm = example_mesh\<rparr>"

definition example_topo_ops :: "unit topo_ops" where
  "example_topo_ops =
     \<lparr>short_edge_queue_task = (\<lambda>dab p. (p, [])),
      long_edge_queue_task = (\<lambda>dab p. (p, [])),
      pbvh_bmesh_collapse_short_edges =
        (\<lambda>q p n. (p\<lparr>bm_max_edge_len := 2 * bm_max_edge_len p\<rparr>, True)),
      pbvh_bmesh_subdivide_long_edges =
        (\<lambda>q p n. (p\<lparr>bm_max_edge_len := bm_max_edge_len p + 1\<rparr>, False)),
      cleanup_valence_3_4 = (\<lambda>dab p. (p\<lparr>bm_max_edge_len := 3 * bm_max_edge_len p\<rparr>, False))\<rparr>"


subsection \<open>Joining small subtrees after a stroke\<close>

text \<open>A \<^verbatim>\<open>TGSET_ITER\<close> loop that adds every key of one set to another one with
  \<^verbatim>\<open>BLI_table_gset_add\<close>: the receiving set is read only when there is a key to add.\<close>

definition gset_add_all :: "nat list option \<Rightarrow> nat list \<Rightarrow> fault + nat list option" where
  "gset_add_all s ks =
     (case s of
        None \<Rightarrow> if ks = [] then Inr None else Inl NullDeref
      | Some xs \<Rightarrow> Inr (Some (foldl gset_add xs ks)))"

text \<open>\<^verbatim>\<open>pbvh_count_subtree_verts\<close>, \<^verbatim>\<open>pbvh_bmesh_join_subnodes\<close> and
  \<^verbatim>\<open>BKE_pbvh_bmesh_corect_tree\<close> recurse along the child offsets stored in the nodes, which
  need not lead to a leaf on a malformed node array; the first argument bounds the depth of
  the recursion. Nodes are passed by their index in the node array; \<^verbatim>\<open>subtree_tottri\<close> is an
  unbounded integer here.\<close>

fun pbvh_count_subtree_verts :: "nat \<Rightarrow> PBVH \<Rightarrow> nat \<Rightarrow> fault + (PBVH \<times> int)" where
  "pbvh_count_subtree_verts 0 pbvh n = Inl OutOfFuel"
| "pbvh_count_subtree_verts (Suc fuel) pbvh n =
     (if n \<ge> length (nodes pbvh) then Inl OutOfBounds
      else if PBVH_Leaf \<in> flag (nodes pbvh ! n) then
        (case bm_faces (nodes pbvh ! n) of
           None \<Rightarrow> Inl NullDeref
         | Some fs \<Rightarrow>
             Inr (pbvh\<lparr>nodes := (nodes pbvh)
                          [n := (nodes pbvh ! n)\<lparr>subtree_tottri := int (length fs)\<rparr>]\<rparr>,
                  int (length fs)))
      else
        let ni = children_offset (nodes pbvh ! n)
        in if ni < 0 then Inl OutOfBounds
           else
             case pbvh_count_subtree_verts fuel pbvh (nat ni) of
               Inl e \<Rightarrow> Inl e
             | Inr (pbvh1, r1) \<Rightarrow>
                 (case pbvh_count_subtree_verts fuel pbvh1 (nat ni + 1) of
                    Inl e \<Rightarrow> Inl e
                  | Inr (pbvh2, r2) \<Rightarrow>
                      Inr (pbvh2\<lparr>nodes := (nodes pbvh2)
                                    [n := (nodes pbvh2 ! n)\<lparr>subtree_tottri := r1 + r2\<rparr>]\<rparr>,
                           r1 + r2)))"

text \<open>The leaf case of \<^verbatim>\<open>pbvh_bmesh_join_subnodes\<close> after the deletion mark: the two loops that
  hand the unique vertices and the faces of the leaf to \<^verbatim>\<open>parent\<close> and reset their home-node
  tags.\<close>

definition join_leaf :: "PBVH \<Rightarrow> nat \<Rightarrow> nat \<Rightarrow> fault + PBVH" where
  "join_leaf pbvh n parent =
     (if parent \<ge> length (nodes pbvh) then Inl OutOfBounds
      else
        case bm_unique_verts (nodes pbvh ! n) of
          None \<Rightarrow> Inl NullDeref
        | Some vs \<Rightarrow>
            (case gset_add_all (bm_unique_verts (nodes pbvh ! parent)) vs of
               Inl e \<Rightarrow> Inl e
             | Inr us \<Rightarrow>
                 let pbvh1 = pbvh\<lparr>nodes := (nodes pbvh)
                                     [parent := (nodes pbvh ! parent)\<lparr>bm_unique_verts := us\<rparr>],
                                   bm := foldl (\<lambda>m vx. m\<lparr>vert_node :=
                                                   (vert_node m)(vx := DYNTOPO_NODE_NONE)\<rparr>)
                                           (bm pbvh) vs\<rparr>
                 in case bm_faces (nodes pbvh1 ! n) of
                      None \<Rightarrow> Inl NullDeref
                    | Some fs \<Rightarrow>
                        (case gset_add_all (bm_faces (nodes pbvh1 ! parent)) fs of
                           Inl e \<Rightarrow> Inl e
                         | Inr pf \<Rightarrow>
                             Inr (pbvh1\<lparr>nodes := (nodes pbvh1)
                                           [parent := (nodes pbvh1 ! parent)\<lparr>bm_faces := pf\<rparr>],
                                         bm := foldl (\<lambda>m f. m\<lparr>face_node :=
                                                        (face_node m)(f := DYNTOPO_NODE_NONE)\<rparr>)
                                                 (bm pbvh1) fs\<rparr>))))"

text \<open>\<^verbatim>\<open>if (node != parent) node->flag |= PBVH_Delete\<close>.\<close>

definition mark_delete :: "PBVH \<Rightarrow> nat \<Rightarrow> nat \<Rightarrow> PBVH" where
  "mark_delete pbvh n parent =
     (if n \<noteq> parent
      then pbvh\<lparr>nodes := (nodes pbvh)
                  [n := (nodes pbvh ! n)\<lparr>flag := flag (nodes pbvh ! n) \<union> {PBVH_Delete}\<rparr>]\<rparr>
      else pbvh)"

fun pbvh_bmesh_join_subnodes :: "nat \<Rightarrow> PBVH \<Rightarrow> nat \<Rightarrow> nat \<Rightarrow> fault + PBVH" where
  "pbvh_bmesh_join_subnodes 0 pbvh n parent = Inl OutOfFuel"
| "pbvh_bmesh_join_subnodes (Suc fuel) pbvh n parent =
     (if n \<ge> length (nodes pbvh) then Inl OutOfBounds
      else if PBVH_Leaf \<notin> flag (nodes pbvh ! n) then
        let ni = children_offset (nodes pbvh ! n)
        in if ni > 0 \<and> ni < int (length (nodes pbvh)) - 1
           then
             case pbvh_bmesh_join_subnodes fuel pbvh (nat ni) parent of
               Inl e \<Rightarrow> Inl e
             | Inr pbvh1 \<Rightarrow>
                 (case pbvh_bmesh_join_subnodes fuel pbvh1 (nat ni + 1) parent of
                    Inl e \<Rightarrow> Inl e
                  | Inr pbvh2 \<Rightarrow> Inr (mark_delete pbvh2 n parent))
           else Inr pbvh
      else join_leaf (mark_delete pbvh n parent) n parent)"

text \<open>The statements of the merging branch of \<^verbatim>\<open>BKE_pbvh_bmesh_corect_tree\<close> that follow the
  two calls of \<^verbatim>\<open>pbvh_bmesh_join_subnodes\<close>: the node becomes a leaf with all update flags,
  its set of referenced vertices is rebuilt from the loops of its faces, and its box is
  recomputed from both vertex sets.\<close>

definition corect_tree_rebuild :: "pbvh_env \<Rightarrow> PBVH \<Rightarrow> nat \<Rightarrow> fault + PBVH" where
  "corect_tree_rebuild env pbvh n =
     (let node = nodes pbvh ! n;
          node1 = node\<lparr>children_offset := 0,
                       flag := flag node \<union>
                         {PBVH_Leaf, PBVH_UpdateRedraw, PBVH_UpdateBB, PBVH_UpdateDrawBuffers,
                          PBVH_RebuildDrawBuffers, PBVH_UpdateOriginalBB, PBVH_UpdateMask,
                          PBVH_UpdateVisibility, PBVH_UpdateColor, PBVH_UpdateTopology,
                          PBVH_UpdateNormals, PBVH_UpdateTris},
                       draw_buffers := None\<rparr>
      in case bm_faces node1 of
           None \<Rightarrow> Inl NullDeref
         | Some fs \<Rightarrow>
             (case bm_unique_verts node1 of
                None \<Rightarrow> Inl NullDeref
              | Some us \<Rightarrow>
                  let other = foldl (\<lambda>other f.
                                foldl (\<lambda>other vx. if vx \<in> set us then other else gset_add other vx)
                                  other (face_verts (bm pbvh) f)) [] fs;
                      m1 = foldl (\<lambda>m f. m\<lparr>face_node := (face_node m)(f := DYNTOPO_NODE_NONE)\<rparr>)
                             (bm pbvh) fs;
                      b = foldl (\<lambda>b vx. BB_expand env b (vert_co m1 vx))
                            (foldl (\<lambda>b vx. BB_expand env b (vert_co m1 vx)) (BB_reset env) us)
                            other;
                      node2 = node1\<lparr>bm_other_verts := Some other, vb := b, orig_vb := b\<rparr>
                  in Inr (pbvh\<lparr>nodes := (nodes pbvh)[n := node2], bm := m1\<rparr>)))"

text \<open>\<^verbatim>\<open>BKE_pbvh_bmesh_corect_tree\<close>; \<^verbatim>\<open>node != pbvh->nodes\<close> is \<open>n \<noteq> 0\<close>, and \<^verbatim>\<open>leaf_limit >> 1\<close>
  is the division by two that rounds down.\<close>

fun BKE_pbvh_bmesh_corect_tree ::
  "pbvh_env \<Rightarrow> nat \<Rightarrow> PBVH \<Rightarrow> nat \<Rightarrow> nat option \<Rightarrow> fault + PBVH" where
  "BKE_pbvh_bmesh_corect_tree env 0 pbvh n parent = Inl OutOfFuel"
| "BKE_pbvh_bmesh_corect_tree env (Suc fuel) pbvh n parent =
     (if n \<ge> length (nodes pbvh) then Inl OutOfBounds
      else
        let node = nodes pbvh ! n;
            size_lower = leaf_limit pbvh - leaf_limit pbvh div 2
        in if PBVH_Leaf \<in> flag node then Inr pbvh
           else if subtree_tottri node < size_lower \<and> n \<noteq> 0 then
             let pbvh1 = pbvh\<lparr>nodes := (nodes pbvh)
                                 [n := node\<lparr>bm_unique_verts := Some [], bm_other_verts := Some [],
                                            bm_faces := Some []\<rparr>]\<rparr>
             in if children_offset (nodes pbvh1 ! n) < 0 then Inl OutOfBounds
                else
                  case pbvh_bmesh_join_subnodes fuel pbvh1
                         (nat (children_offset (nodes pbvh1 ! n))) n of
                    Inl e \<Rightarrow> Inl e
                  | Inr pbvh2 \<Rightarrow>
                      if children_offset (nodes pbvh2 ! n) + 1 < 0 then Inl OutOfBounds
                      else
                        (case pbvh_bmesh_join_subnodes fuel pbvh2
                                (nat (children_offset (nodes pbvh2 ! n) + 1)) n of
                           Inl e \<Rightarrow> Inl e
                         | Inr pbvh3 \<Rightarrow> corect_tree_rebuild env pbvh3 n)
           else
             let ni = children_offset node
             in if ni < 0 then Inl OutOfBounds
                else
                  case BKE_pbvh_bmesh_corect_tree env fuel pbvh (nat ni) (Some n) of
                    Inl e \<Rightarrow> Inl e
                  | Inr pbvh1 \<Rightarrow>
                      BKE_pbvh_bmesh_corect_tree env fuel pbvh1 (nat ni + 1) (Some n))"

text \<open>The head of \<^verbatim>\<open>pbvh_bmesh_join_nodes\<close>, up to the comment \<^verbatim>\<open>// compact nodes\<close>: the
  early return, the count and the pass from the root with a null parent.\<close>

definition pbvh_bmesh_join_nodes_merge :: "pbvh_env \<Rightarrow> nat \<Rightarrow> PBVH \<Rightarrow> fault + PBVH" where
  "pbvh_bmesh_join_nodes_merge env fuel pbvh =
     (if length (nodes pbvh) < 2 then Inr pbvh
      else
        case pbvh_count_subtree_verts fuel pbvh 0 of
          Inl e \<Rightarrow> Inl e
        | Inr (pbvh1, r) \<Rightarrow> BKE_pbvh_bmesh_corect_tree env fuel pbvh1 0 None)"

subsection \<open>The tree stored in the node array\<close>

text \<open>The shape of the tree that the child offsets describe, with the index of every node:
  \<open>tree_at ns T\<close> says that the node array \<open>ns\<close> stores \<open>T\<close> (a leaf is flagged
  \<^verbatim>\<open>PBVH_Leaf\<close> and has its face and unique-vertex sets; an internal node is not flagged and its
  two children sit at its child offset and the index after it, neither of them at index 0).
  \<open>leaf_faces\<close> and \<open>leaf_unique_verts\<close> collect the members of the leaves of a subtree,
  \<open>subtree_faces\<close> is its face count, and \<open>below\<close> lists the indices of its proper
  descendants.\<close>

datatype ptree = PLeaf nat | PNode nat ptree ptree

fun root_ix :: "ptree \<Rightarrow> nat" where
  "root_ix (PLeaf i) = i"
| "root_ix (PNode i l r) = i"

fun indices :: "ptree \<Rightarrow> nat list" where
  "indices (PLeaf i) = [i]"
| "indices (PNode i l r) = i # indices l @ indices r"

fun depth_of :: "ptree \<Rightarrow> nat" where
  "depth_of (PLeaf i) = 0"
| "depth_of (PNode i l r) = Suc (max (depth_of l) (depth_of r))"

fun subtrees :: "ptree \<Rightarrow> ptree list" where
  "subtrees (PLeaf i) = [PLeaf i]"
| "subtrees (PNode i l r) = PNode i l r # subtrees l @ subtrees r"

fun below :: "ptree \<Rightarrow> nat list" where
  "below (PLeaf i) = []"
| "below (PNode i l r) = indices l @ indices r"

fun is_internal :: "ptree \<Rightarrow> bool" where
  "is_internal (PLeaf i) = False"
| "is_internal (PNode i l r) = True"

fun tree_at :: "PBVHNode list \<Rightarrow> ptree \<Rightarrow> bool" where
  "tree_at ns (PLeaf i) \<longleftrightarrow>
     i < length ns \<and> PBVH_Leaf \<in> flag (ns ! i) \<and> bm_faces (ns ! i) \<noteq> None
     \<and> bm_unique_verts (ns ! i) \<noteq> None"
| "tree_at ns (PNode i l r) \<longleftrightarrow>
     i < length ns \<and> PBVH_Leaf \<notin> flag (ns ! i) \<and> children_offset (ns ! i) = int (root_ix l)
     \<and> 0 < root_ix l \<and> root_ix r = root_ix l + 1 \<and> tree_at ns l \<and> tree_at ns r"

fun leaf_faces :: "PBVHNode list \<Rightarrow> ptree \<Rightarrow> nat list" where
  "leaf_faces ns (PLeaf i) = (case bm_faces (ns ! i) of None \<Rightarrow> [] | Some fs \<Rightarrow> fs)"
| "leaf_faces ns (PNode i l r) = leaf_faces ns l @ leaf_faces ns r"

fun leaf_unique_verts :: "PBVHNode list \<Rightarrow> ptree \<Rightarrow> nat list" where
  "leaf_unique_verts ns (PLeaf i) = (case bm_unique_verts (ns ! i) of None \<Rightarrow> [] | Some vs \<Rightarrow> vs)"
| "leaf_unique_verts ns (PNode i l r) = leaf_unique_verts ns l @ leaf_unique_verts ns r"

fun subtree_faces :: "PBVHNode list \<Rightarrow> ptree \<Rightarrow> int" where
  "subtree_faces ns (PLeaf i) = int (length (leaf_faces ns (PLeaf i)))"
| "subtree_faces ns (PNode i l r) = subtree_faces ns l + subtree_faces ns r"

text \<open>Two nodes agree on the fields that determine the tree; \<open>counts_ok\<close> says that every
  node of a subtree stores the face count of its subtree in \<^verbatim>\<open>subtree_tottri\<close>.\<close>

definition same_shape :: "PBVHNode \<Rightarrow> PBVHNode \<Rightarrow> bool" where
  "same_shape a b \<longleftrightarrow> flag a = flag b \<and> children_offset a = children_offset b
     \<and> bm_faces a = bm_faces b \<and> bm_unique_verts a = bm_unique_verts b"

fun counts_ok :: "PBVHNode list \<Rightarrow> ptree \<Rightarrow> bool" where
  "counts_ok ns (PLeaf i) \<longleftrightarrow> subtree_tottri (ns ! i) = subtree_faces ns (PLeaf i)"
| "counts_ok ns (PNode i l r) \<longleftrightarrow>
     subtree_tottri (ns ! i) = subtree_faces ns (PNode i l r) \<and> counts_ok ns l \<and> counts_ok ns r"

text \<open>The outcome of merging the subtree \<open>S\<close> of the state \<open>p\<close> into its root, read off
  the state \<open>p'\<close>: the root of \<open>S\<close> is a leaf with all update flags, it is not newly marked
  for deletion, it has no child offset, its faces and unique vertices are those of the leaves
  of \<open>S\<close>, its referenced vertices are the other vertices of its faces, its box and original
  box are the box of its vertices, and every node below it is marked for deletion.\<close>

definition merged_leaf :: "pbvh_env \<Rightarrow> PBVH \<Rightarrow> PBVH \<Rightarrow> ptree \<Rightarrow> bool" where
  "merged_leaf env p p' S \<longleftrightarrow>
     (let n' = nodes p' ! root_ix S
      in {PBVH_Leaf, PBVH_UpdateRedraw, PBVH_UpdateBB, PBVH_UpdateDrawBuffers,
          PBVH_RebuildDrawBuffers, PBVH_UpdateOriginalBB, PBVH_UpdateMask,
          PBVH_UpdateVisibility, PBVH_UpdateColor, PBVH_UpdateTopology,
          PBVH_UpdateNormals, PBVH_UpdateTris} \<subseteq> flag n'
         \<and> PBVH_Delete \<in> flag n' = (PBVH_Delete \<in> flag (nodes p ! root_ix S))
         \<and> children_offset n' = 0
         \<and> (case bm_faces n' of None \<Rightarrow> False | Some fs \<Rightarrow>
             case bm_unique_verts n' of None \<Rightarrow> False | Some us \<Rightarrow>
             case bm_other_verts n' of None \<Rightarrow> False | Some os \<Rightarrow>
               set fs = set (leaf_faces (nodes p) S)
               \<and> set us = set (leaf_unique_verts (nodes p) S)
               \<and> set os = (\<Union>f \<in> set fs. set (face_verts (bm p) f)) - set us
               \<and> vb n' = foldl (\<lambda>b vx. BB_expand env b (vert_co (bm p) vx)) (BB_reset env)
                            (us @ os)
               \<and> orig_vb n' = vb n')
         \<and> list_all (\<lambda>j. PBVH_Delete \<in> flag (nodes p' ! j)) (below S))"

text \<open>The outcome of the pass on a subtree: the topmost internal nodes other than the root
  whose face count is under half the leaf limit are merged.\<close>

fun corrected :: "pbvh_env \<Rightarrow> PBVH \<Rightarrow> PBVH \<Rightarrow> ptree \<Rightarrow> bool" where
  "corrected env p p' (PLeaf i) \<longleftrightarrow> True"
| "corrected env p p' (PNode i l r) \<longleftrightarrow>
     (if 2 * subtree_faces (nodes p) (PNode i l r) < leaf_limit p \<and> i \<noteq> 0
      then merged_leaf env p p' (PNode i l r)
      else corrected env p p' l \<and> corrected env p p' r)"

text \<open>A tree of five nodes with a leaf limit of six: the root (index 0) has the internal node
  1 and the leaf 2 (five faces) as children, and node 1 has the leaves 3 and 4 (one face
  each).\<close>

definition example_tree_pbvh :: PBVH where
  "example_tree_pbvh =
     (let leaf = (\<lambda>fs vs.
            \<lparr>flag = {PBVH_Leaf}, children_offset = 0,
             bm_unique_verts = Some vs, bm_other_verts = Some [], bm_faces = Some fs,
             vb = \<lparr>bmin = (0, 0, 0), bmax = (0, 0, 0)\<rparr>,
             orig_vb = \<lparr>bmin = (0, 0, 0), bmax = (0, 0, 0)\<rparr>,
             subtree_tottri = 0, draw_buffers = None, layer_disp = None\<rparr>);
          inner = (\<lambda>co.
            \<lparr>flag = {}, children_offset = co,
             bm_unique_verts = None, bm_other_verts = None, bm_faces = None,
             vb = \<lparr>bmin = (0, 0, 0), bmax = (0, 0, 0)\<rparr>,
             orig_vb = \<lparr>bmin = (0, 0, 0), bmax = (0, 0, 0)\<rparr>,
             subtree_tottri = 0, draw_buffers = None, layer_disp = None\<rparr>)
      in \<lparr>nodes = [inner 1, inner 3, leaf [2, 3, 4, 5, 6] [4, 5, 6, 7, 8],
                   leaf [0] [0, 1, 2], leaf [1] [3]],
          leaf_limit = 6, bm_min_edge_len = 1, bm_max_edge_len = 2, bm = example_mesh\<rparr>)"

definition example_tree :: ptree where
  "example_tree = PNode 0 (PNode 1 (PLeaf 3) (PLeaf 4)) (PLeaf 2)"


section \<open>Curve drawing tool (gpencil\_curve\_draw.c)\<close>

subsection \<open>Data\<close>

datatype eGPDcurve_draw_state =
  IN_MOVE | IN_SET_VECTOR | IN_DRAG_ALIGNED_HANDLE | IN_DRAG_FREE_HANDLE | IN_SET_THICKNESS

datatype eBezTriple_Handle = HD_FREE | HD_AUTO | HD_VECT | HD_ALIGN

definition CD_MODAL_CANCEL :: int where "CD_MODAL_CANCEL = 1"
definition CD_MODAL_CONFIRM :: int where "CD_MODAL_CONFIRM = 2"
definition CD_MODAL_FREE_HANDLE_ON :: int where "CD_MODAL_FREE_HANDLE_ON = 3"
definition CD_MODAL_FREE_HANDLE_OFF :: int where "CD_MODAL_FREE_HANDLE_OFF = 4"
definition CD_MODAL_CYCLIC_TOGGLE :: int where "CD_MODAL_CYCLIC_TOGGLE = 5"
definition CD_MODAL_DELETE_LAST :: int where "CD_MODAL_DELETE_LAST = 6"
definition CD_MODAL_SET_THICKNESS :: int where "CD_MODAL_SET_THICKNESS = 7"

text \<open>An event as the tool reads it: its type together with its value (the modal command of
  a keymap event, press or release of the left button), for an event of another type whether
  its value is \<^verbatim>\<open>KM_PRESS\<close> (\<open>ev_val_press\<close>), the pointer position and the drag threshold that
  \<^verbatim>\<open>WM_event_drag_threshold\<close> reports for it.\<close>

datatype key_val = KM_PRESS | KM_RELEASE | KM_OTHER

datatype event_kind = EVT_MODAL_MAP int | LEFTMOUSE key_val | MOUSEMOVE | OTHER_EVENT

record wmEvent =
  ev_kind :: event_kind
  ev_val_press :: bool
  ev_mval :: "int \<times> int"
  ev_drag_threshold :: int

datatype operator_return =
  OPERATOR_RUNNING_MODAL | OPERATOR_FINISHED | OPERATOR_CANCELLED
  | OPERATOR_RUNNING_MODAL_PASS_THROUGH

text \<open>\<^verbatim>\<open>BezTriple\<close>: the two handles \<open>vec0\<close>, \<open>vec2\<close> and the anchor \<open>vec1\<close>, the handle types and
  the selection bit of each of \<open>f1\<close>, \<open>f2\<close>, \<open>f3\<close>.\<close>

record BezTriple =
  vec0 :: float3
  vec1 :: float3
  vec2 :: float3
  h1 :: eBezTriple_Handle
  h2 :: eBezTriple_Handle
  f1_select :: bool
  f2_select :: bool
  f3_select :: bool

record bGPDcurve_point =
  bezt :: BezTriple
  cpt_pressure :: real
  cpt_strength :: real
  point_index :: int
  cpt_select :: bool

text \<open>\<^verbatim>\<open>tot_curve_points\<close> is the length of \<open>curve_points\<close>.\<close>

record bGPDcurve =
  curve_points :: "bGPDcurve_point list"
  curve_flag :: int

text \<open>A stroke: the sampled points (\<^verbatim>\<open>totpoints\<close> is their number), the cyclic bit of the flag,
  the brush attributes the tool copies in, the reference of the edit curve (\<open>None\<close> when null)
  and the cached geometry that \<^verbatim>\<open>BKE_gpencil_stroke_geometry_update\<close> derives.\<close>

record 'g bGPDstroke =
  gps_points :: "bGPDspoint list"
  gps_cyclic :: bool
  gps_thickness :: real
  gps_hardeness :: real
  gps_aspect_ratio :: "real \<times> real"
  editcurve :: "nat option"
  gps_geometry :: 'g

record tGPDcurve_draw =
  tcd_gps :: nat
  tcd_gpc :: nat
  imval :: "int \<times> int"
  imval_prev :: "int \<times> int"
  imval_start :: "int \<times> int"
  imval_end :: "int \<times> int"
  is_mouse_down :: bool
  is_cyclic :: bool
  prev_pressure :: real
  resolution :: int
  tcd_state :: eGPDcurve_draw_state

text \<open>The data the tool works on: the stroke list of the frame that
  \<^verbatim>\<open>BKE_gpencil_layer_frame_get\<close> returned (references in list order), the allocated strokes and
  curves, the next unused reference of the allocator, and the operator's \<^verbatim>\<open>customdata\<close>.
  Notifications, the status text, the cursor and the draw callback are outside the model.\<close>

record 'g curve_world =
  frame_strokes :: "nat list"
  stroke_heap :: "nat \<rightharpoonup> 'g bGPDstroke"
  curve_heap :: "nat \<rightharpoonup> bGPDcurve"
  next_ref :: nat
  customdata :: "tGPDcurve_draw option"

text \<open>
  Routines and settings from outside these sources. The view functions that
  \<^verbatim>\<open>gpencil_project_mval_to_v3\<close> calls; the brush attributes; the templates of a stroke, a
  stroke point and a curve point as the allocating routines return them;
  \<^verbatim>\<open>curve_edit_resolution\<close> of the data block; the sampling of a curve into stroke points
  (\<^verbatim>\<open>BKE_gpencil_stroke_update_geometry_from_editcurve\<close>) and the derived stroke geometry.

  Modelled from the spec: \<^verbatim>\<open>BKE_gpencil_editcurve_recalculate_handles\<close> is not part of these
  sources; it recalculates the handle directions from the neighbours, so \<open>recalculate_handle\<close>
  gives, for the points of a curve and an index, the new positions of the two handles of that
  point. \<^verbatim>\<open>BKE_gpencil_free_stroke\<close> is not part of these sources either; it frees the stroke
  together with its edit curve.
\<close>

record 'g curve_env =
  drawing_reference :: float3
  calc_zfac :: "float3 \<Rightarrow> real"
  project_float_global :: "float3 \<Rightarrow> (real \<times> real) option"
  win_to_delta :: "real \<times> real \<Rightarrow> real \<Rightarrow> float3"
  brush_size :: real
  brush_hardeness :: real
  brush_aspect_ratio :: "real \<times> real"
  stroke_template :: "'g bGPDstroke"
  spoint_template :: bGPDspoint
  curve_point_template :: bGPDcurve_point
  curve_template_flag :: int
  curve_edit_resolution :: int
  sample_curve :: "'g bGPDstroke \<Rightarrow> bGPDcurve \<Rightarrow> int \<Rightarrow> bGPDspoint list"
  stroke_geometry :: "'g bGPDstroke \<Rightarrow> 'g"
  recalculate_handle :: "bGPDcurve_point list \<Rightarrow> nat \<Rightarrow> float3 \<times> float3"

definition bind_fault :: "fault + 'a \<Rightarrow> ('a \<Rightarrow> fault + 'b) \<Rightarrow> fault + 'b" where
  "bind_fault m f = (case m of Inl e \<Rightarrow> Inl e | Inr x \<Rightarrow> f x)"

definition get_stroke :: "'g curve_world \<Rightarrow> nat \<Rightarrow> fault + 'g bGPDstroke" where
  "get_stroke w r = (case stroke_heap w r of None \<Rightarrow> Inl UseAfterFree | Some x \<Rightarrow> Inr x)"

definition get_curve :: "'g curve_world \<Rightarrow> nat \<Rightarrow> fault + bGPDcurve" where
  "get_curve w r = (case curve_heap w r of None \<Rightarrow> Inl UseAfterFree | Some x \<Rightarrow> Inr x)"

definition get_tcd :: "'g curve_world \<Rightarrow> fault + tGPDcurve_draw" where
  "get_tcd w = (case customdata w of None \<Rightarrow> Inl NullDeref | Some x \<Rightarrow> Inr x)"

definition put_stroke :: "nat \<Rightarrow> 'g bGPDstroke \<Rightarrow> 'g curve_world \<Rightarrow> 'g curve_world" where
  "put_stroke r x w = w\<lparr>stroke_heap := (stroke_heap w)(r \<mapsto> x)\<rparr>"

definition put_curve :: "nat \<Rightarrow> bGPDcurve \<Rightarrow> 'g curve_world \<Rightarrow> 'g curve_world" where
  "put_curve r x w = w\<lparr>curve_heap := (curve_heap w)(r \<mapsto> x)\<rparr>"

definition put_tcd :: "tGPDcurve_draw \<Rightarrow> 'g curve_world \<Rightarrow> 'g curve_world" where
  "put_tcd x w = w\<lparr>customdata := Some x\<rparr>"

definition sub_v3_v3v3 :: "float3 \<Rightarrow> float3 \<Rightarrow> float3" where
  "sub_v3_v3v3 a b =
     (case a of (a0, a1, a2) \<Rightarrow> case b of (b0, b1, b2) \<Rightarrow> (a0 - b0, a1 - b1, a2 - b2))"

definition add_v3_v3 :: "float3 \<Rightarrow> float3 \<Rightarrow> float3" where
  "add_v3_v3 a b =
     (case a of (a0, a1, a2) \<Rightarrow> case b of (b0, b1, b2) \<Rightarrow> (a0 + b0, a1 + b1, a2 + b2))"

definition len_v2v2_int :: "int \<times> int \<Rightarrow> int \<times> int \<Rightarrow> real" where
  "len_v2v2_int a b =
     sqrt (real_of_int ((fst a - fst b) * (fst a - fst b) + (snd a - snd b) * (snd a - snd b)))"

definition len_manhattan_v2_int :: "int \<times> int \<Rightarrow> int" where
  "len_manhattan_v2_int a = \<bar>fst a\<bar> + \<bar>snd a\<bar>"

subsection \<open>Helper functions\<close>

definition gpencil_project_mval_to_v3 :: "'g curve_env \<Rightarrow> int \<times> int \<Rightarrow> float3" where
  "gpencil_project_mval_to_v3 env mval_i =
     (let mval_f = (real_of_int (fst mval_i), real_of_int (snd mval_i));
          rvec = drawing_reference env;
          zfac = calc_zfac env rvec
      in case project_float_global env rvec of
           Some mval_prj \<Rightarrow>
             let d = (fst mval_prj - fst mval_f, snd mval_prj - snd mval_f);
                 dvec = win_to_delta env d zfac
             in sub_v3_v3v3 rvec dvec
         | None \<Rightarrow> (0, 0, 0))"

text \<open>\<^verbatim>\<open>BKE_gpencil_stroke_update_geometry_from_editcurve\<close> on a stroke: nothing without an edit
  curve, otherwise the points are sampled anew from it.\<close>

definition stroke_update_geometry_from_editcurve ::
  "'g curve_env \<Rightarrow> nat \<Rightarrow> int \<Rightarrow> 'g curve_world \<Rightarrow> fault + 'g curve_world" where
  "stroke_update_geometry_from_editcurve env r res w =
     bind_fault (get_stroke w r) (\<lambda>gps.
       case editcurve gps of
         None \<Rightarrow> Inr w
       | Some c \<Rightarrow>
           bind_fault (get_curve w c) (\<lambda>gpc.
             Inr (put_stroke r (gps\<lparr>gps_points := sample_curve env gps gpc res\<rparr>) w)))"

definition stroke_geometry_update ::
  "'g curve_env \<Rightarrow> nat \<Rightarrow> 'g curve_world \<Rightarrow> fault + 'g curve_world" where
  "stroke_geometry_update env r w =
     bind_fault (get_stroke w r) (\<lambda>gps.
       Inr (put_stroke r (gps\<lparr>gps_geometry := stroke_geometry env gps\<rparr>) w))"

definition recalculate_handles_points ::
  "'g curve_env \<Rightarrow> bGPDcurve_point list \<Rightarrow> bGPDcurve_point list" where
  "recalculate_handles_points env cps =
     map (\<lambda>i. let cpt = cps ! i; hs = recalculate_handle env cps i
              in cpt\<lparr>bezt := (bezt cpt)\<lparr>vec0 := fst hs, vec2 := snd hs\<rparr>\<rparr>)
       [0..<length cps]"

definition editcurve_recalculate_handles ::
  "'g curve_env \<Rightarrow> nat \<Rightarrow> 'g curve_world \<Rightarrow> fault + 'g curve_world" where
  "editcurve_recalculate_handles env r w =
     bind_fault (get_stroke w r) (\<lambda>gps.
       case editcurve gps of
         None \<Rightarrow> Inr w
       | Some c \<Rightarrow>
           bind_fault (get_curve w c) (\<lambda>gpc.
             Inr (put_curve c
                    (gpc\<lparr>curve_points := recalculate_handles_points env (curve_points gpc)\<rparr>) w)))"

text \<open>\<^verbatim>\<open>BKE_gpencil_free_stroke\<close>.\<close>

definition free_stroke :: "nat \<Rightarrow> 'g curve_world \<Rightarrow> fault + 'g curve_world" where
  "free_stroke r w =
     bind_fault (get_stroke w r) (\<lambda>gps.
       let w1 = (case editcurve gps of
                   None \<Rightarrow> w
                 | Some c \<Rightarrow> w\<lparr>curve_heap := (curve_heap w)(c := None)\<rparr>)
       in Inr (w1\<lparr>stroke_heap := (stroke_heap w1)(r := None)\<rparr>))"

text \<open>Write access to the last point of the curve of the tool,
  \<^verbatim>\<open>&gpc->curve_points[gpc->tot_curve_points - 1]\<close>.\<close>

definition update_last_point ::
  "(bGPDcurve_point \<Rightarrow> bGPDcurve_point) \<Rightarrow> nat \<Rightarrow> 'g curve_world \<Rightarrow> fault + 'g curve_world" where
  "update_last_point f c w =
     bind_fault (get_curve w c) (\<lambda>gpc.
       if curve_points gpc = [] then Inl OutOfBounds
       else Inr (put_curve c
                   (gpc\<lparr>curve_points :=
                      (curve_points gpc)[length (curve_points gpc) - 1 :=
                         f (last (curve_points gpc))]\<rparr>) w))"

definition gpencil_push_curve_point ::
  "'g curve_env \<Rightarrow> tGPDcurve_draw \<Rightarrow> 'g curve_world \<Rightarrow> fault + 'g curve_world" where
  "gpencil_push_curve_point env tcd w =
     bind_fault (get_curve w (tcd_gpc tcd)) (\<lambda>gpc.
       if curve_points gpc = [] then Inl OutOfBounds
       else
         let old_last = last (curve_points gpc);
             new_last = old_last\<lparr>bezt := (bezt old_last)\<lparr>h1 := HD_VECT, h2 := HD_VECT\<rparr>\<rparr>;
             w1 = put_curve (tcd_gpc tcd)
                    (gpc\<lparr>curve_points := curve_points gpc @ [new_last]\<rparr>) w
         in stroke_update_geometry_from_editcurve env (tcd_gps tcd)
              (curve_edit_resolution env) w1)"

text \<open>\<^verbatim>\<open>gpencil_pop_curve_point\<close>. The duplicate stroke and the new curve are allocated at the
  next two unused references. A negative \<^verbatim>\<open>new_num_points\<close> cannot be allocated.\<close>

definition gpencil_pop_curve_point ::
  "'g curve_env \<Rightarrow> tGPDcurve_draw \<Rightarrow> 'g curve_world \<Rightarrow>
   fault + (tGPDcurve_draw \<times> 'g curve_world)" where
  "gpencil_pop_curve_point env tcd w =
     bind_fault (get_stroke w (tcd_gps tcd)) (\<lambda>gps.
     bind_fault (get_curve w (tcd_gpc tcd)) (\<lambda>gpc.
       if curve_points gpc = [] then Inl OutOfBounds
       else
         let new_num_points = length (curve_points gpc) - 1;
             new_stroke_ref = next_ref w;
             new_curve_ref = next_ref w + 1;
             new_curve = \<lparr>curve_points = take new_num_points (curve_points gpc),
                          curve_flag = curve_flag gpc\<rparr>;
             new_stroke = gps\<lparr>gps_points := [], editcurve := Some new_curve_ref\<rparr>;
             w1 = w\<lparr>next_ref := next_ref w + 2\<rparr>;
             w2 = put_curve new_curve_ref new_curve (put_stroke new_stroke_ref new_stroke w1)
         in bind_fault (stroke_update_geometry_from_editcurve env new_stroke_ref
                          (curve_edit_resolution env) w2) (\<lambda>w3.
            let w4 = w3\<lparr>frame_strokes := remove1 (tcd_gps tcd) (frame_strokes w3)\<rparr>
            in bind_fault (free_stroke (tcd_gps tcd) w4) (\<lambda>w5.
               let tcd1 = tcd\<lparr>tcd_gps := new_stroke_ref, tcd_gpc := new_curve_ref\<rparr>;
                   w6 = w5\<lparr>frame_strokes := frame_strokes w5 @ [new_stroke_ref]\<rparr>
               in bind_fault (stroke_geometry_update env new_stroke_ref w6) (\<lambda>w7.
                    Inr (tcd1, w7))))))"

definition gpencil_set_handle_type_last_point ::
  "tGPDcurve_draw \<Rightarrow> eBezTriple_Handle \<Rightarrow> 'g curve_world \<Rightarrow> fault + 'g curve_world" where
  "gpencil_set_handle_type_last_point tcd ty w =
     update_last_point (\<lambda>cpt. cpt\<lparr>bezt := (bezt cpt)\<lparr>h1 := ty, h2 := ty\<rparr>\<rparr>) (tcd_gpc tcd) w"

definition gpencil_set_alpha_last_segment ::
  "tGPDcurve_draw \<Rightarrow> real \<Rightarrow> 'g curve_world \<Rightarrow> fault + 'g curve_world" where
  "gpencil_set_alpha_last_segment tcd alpha w =
     bind_fault (get_stroke w (tcd_gps tcd)) (\<lambda>gps.
     bind_fault (get_curve w (tcd_gpc tcd)) (\<lambda>gpc.
       if length (curve_points gpc) < 2 then Inr w
       else
         let old_last = curve_points gpc ! (length (curve_points gpc) - 2);
             pts = map (\<lambda>i. if 0 \<le> point_index old_last \<and> point_index old_last \<le> int i
                             then (gps_points gps ! i)\<lparr>pt_strength := alpha\<rparr>
                             else gps_points gps ! i)
                     [0..<length (gps_points gps)]
         in Inr (put_stroke (tcd_gps tcd) (gps\<lparr>gps_points := pts\<rparr>) w)))"

subsection \<open>Main drawing functions\<close>

text \<open>\<^verbatim>\<open>gpencil_curve_draw_update\<close>: the \<^verbatim>\<open>switch\<close> on the state, then the geometry update of the
  stroke.\<close>

definition gpencil_curve_draw_update ::
  "'g curve_env \<Rightarrow> tGPDcurve_draw \<Rightarrow> 'g curve_world \<Rightarrow> fault + 'g curve_world" where
  "gpencil_curve_draw_update env tcd w =
     bind_fault
       (case tcd_state tcd of
          IN_MOVE \<Rightarrow>
            (let co = gpencil_project_mval_to_v3 env (imval tcd)
             in bind_fault
                  (update_last_point
                     (\<lambda>cpt. cpt\<lparr>bezt := (bezt cpt)\<lparr>vec0 := co, vec1 := co, vec2 := co\<rparr>\<rparr>)
                     (tcd_gpc tcd) w) (\<lambda>w1.
                bind_fault (editcurve_recalculate_handles env (tcd_gps tcd) w1) (\<lambda>w2.
                bind_fault (stroke_update_geometry_from_editcurve env (tcd_gps tcd)
                              (resolution tcd) w2) (\<lambda>w3.
                  gpencil_set_alpha_last_segment tcd 0.1 w3))))
        | IN_DRAG_ALIGNED_HANDLE \<Rightarrow>
            (let co = gpencil_project_mval_to_v3 env (imval tcd)
             in bind_fault
                  (update_last_point
                     (\<lambda>cpt. cpt\<lparr>bezt := (bezt cpt)
                               \<lparr>vec0 := add_v3_v3 (sub_v3_v3v3 (vec1 (bezt cpt)) co) (vec1 (bezt cpt)),
                                vec2 := co\<rparr>\<rparr>)
                     (tcd_gpc tcd) w) (\<lambda>w1.
                  stroke_update_geometry_from_editcurve env (tcd_gps tcd) (resolution tcd) w1))
        | IN_DRAG_FREE_HANDLE \<Rightarrow>
            (let co = gpencil_project_mval_to_v3 env (imval tcd)
             in bind_fault
                  (update_last_point (\<lambda>cpt. cpt\<lparr>bezt := (bezt cpt)\<lparr>vec2 := co\<rparr>\<rparr>)
                     (tcd_gpc tcd) w) (\<lambda>w1.
                  stroke_update_geometry_from_editcurve env (tcd_gps tcd) (resolution tcd) w1))
        | IN_SET_THICKNESS \<Rightarrow>
            (let move = (fst (imval tcd) - fst (imval_start tcd),
                         snd (imval tcd) - snd (imval_start tcd));
                 dir = (if fst move > 0 then 1 else - 1 :: int);
                 dist = len_manhattan_v2_int move;
                 dr = real_of_int dir * (real_of_int dist / 10)
             in bind_fault
                  (update_last_point
                     (\<lambda>cpt. cpt\<lparr>cpt_pressure :=
                               (if prev_pressure tcd + dr < 0 then 0 else prev_pressure tcd + dr)\<rparr>)
                     (tcd_gpc tcd) w) (\<lambda>w1.
                  stroke_update_geometry_from_editcurve env (tcd_gps tcd) (resolution tcd) w1))
        | IN_SET_VECTOR \<Rightarrow> Inr w)
       (\<lambda>w1. stroke_geometry_update env (tcd_gps tcd) w1)"

definition gpencil_curve_draw_confirm ::
  "'g curve_env \<Rightarrow> tGPDcurve_draw \<Rightarrow> 'g curve_world \<Rightarrow> fault + 'g curve_world" where
  "gpencil_curve_draw_confirm env tcd w =
     bind_fault
       (update_last_point
          (\<lambda>cpt. cpt\<lparr>cpt_select := False,
                     bezt := (bezt cpt)\<lparr>f1_select := False, f2_select := False,
                                         f3_select := False\<rparr>\<rparr>)
          (tcd_gpc tcd) w)
       (\<lambda>w1. editcurve_recalculate_handles env (tcd_gps tcd) w1)"

text \<open>\<^verbatim>\<open>gpencil_curve_draw_exit\<close> frees the tool data and clears \<^verbatim>\<open>customdata\<close>.\<close>

definition gpencil_curve_draw_exit :: "'g curve_world \<Rightarrow> fault + 'g curve_world" where
  "gpencil_curve_draw_exit w =
     bind_fault (get_tcd w) (\<lambda>tcd. Inr (w\<lparr>customdata := None\<rparr>))"

text \<open>\<^verbatim>\<open>event->val == KM_PRESS\<close>, whatever the type of the event.\<close>

definition event_is_press :: "wmEvent \<Rightarrow> bool" where
  "event_is_press event =
     (case ev_kind event of LEFTMOUSE kv \<Rightarrow> kv = KM_PRESS | _ \<Rightarrow> ev_val_press event)"

text \<open>\<^verbatim>\<open>gpencil_curve_draw_init\<close>, from the creation of the stroke on. The brush, layer and frame
  lookups before it act on data outside the model; the frame they yield is the one whose
  stroke list the state holds. \<^verbatim>\<open>MEM_callocN\<close> zeroes the tool data, so the fields that the
  function does not set are zero.\<close>

definition gpencil_curve_draw_init ::
  "'g curve_env \<Rightarrow> wmEvent \<Rightarrow> 'g curve_world \<Rightarrow> fault + 'g curve_world" where
  "gpencil_curve_draw_init env event w =
     (let gps_ref = next_ref w;
          gpc_ref = next_ref w + 1;
          tcd = \<lparr>tcd_gps = gps_ref, tcd_gpc = gpc_ref,
                 imval = ev_mval event, imval_prev = ev_mval event,
                 imval_start = (0, 0), imval_end = (0, 0),
                 is_mouse_down = event_is_press event,
                 is_cyclic = False, prev_pressure = 0, resolution = 32,
                 tcd_state = IN_SET_VECTOR\<rparr>;
          first_pt = gpencil_project_mval_to_v3 env (imval tcd);
          gps = (stroke_template env)
                  \<lparr>gps_points := [(spoint_template env)
                                    \<lparr>pt_pressure := 1, pt_strength := 1, pt_co := first_pt\<rparr>],
                   gps_thickness := brush_size env,
                   gps_hardeness := brush_hardeness env,
                   gps_aspect_ratio := brush_aspect_ratio env,
                   editcurve := Some gpc_ref\<rparr>;
          cpt = (curve_point_template env)
                  \<lparr>bezt := (bezt (curve_point_template env))
                             \<lparr>vec0 := first_pt, vec1 := first_pt, vec2 := first_pt\<rparr>,
                   cpt_pressure := 1, cpt_strength := 1\<rparr>;
          gpc = \<lparr>curve_points = [cpt], curve_flag = curve_template_flag env\<rparr>;
          w1 = w\<lparr>next_ref := next_ref w + 2,
                 frame_strokes := frame_strokes w @ [gps_ref]\<rparr>;
          w2 = put_curve gpc_ref gpc (put_stroke gps_ref gps w1)
      in bind_fault (stroke_geometry_update env gps_ref w2) (\<lambda>w3.
         bind_fault (gpencil_curve_draw_update env tcd w3) (\<lambda>w4.
           Inr (put_tcd tcd w4))))"

subsection \<open>Operator callbacks\<close>

definition gpencil_curve_draw_invoke ::
  "'g curve_env \<Rightarrow> wmEvent \<Rightarrow> 'g curve_world \<Rightarrow> fault + ('g curve_world \<times> operator_return)" where
  "gpencil_curve_draw_invoke env event w =
     bind_fault (gpencil_curve_draw_init env event w) (\<lambda>w1. Inr (w1, OPERATOR_RUNNING_MODAL))"

text \<open>The end of \<^verbatim>\<open>gpencil_curve_draw_modal\<close> for the branches that leave the \<^verbatim>\<open>switch\<close> with
  \<^verbatim>\<open>break\<close>: the tool data (already written back field by field in C) is stored with
  \<^verbatim>\<open>imval_prev\<close> updated.\<close>

definition modal_continue ::
  "tGPDcurve_draw \<Rightarrow> 'g curve_world \<Rightarrow> fault + ('g curve_world \<times> operator_return)" where
  "modal_continue tcd w =
     Inr (put_tcd (tcd\<lparr>imval_prev := imval tcd\<rparr>) w, OPERATOR_RUNNING_MODAL)"

definition gpencil_curve_draw_modal ::
  "'g curve_env \<Rightarrow> wmEvent \<Rightarrow> 'g curve_world \<Rightarrow> fault + ('g curve_world \<times> operator_return)" where
  "gpencil_curve_draw_modal env event w =
     bind_fault (get_tcd w) (\<lambda>tcd0.
       let drag_threshold = real_of_int (ev_drag_threshold event);
           tcd = tcd0\<lparr>imval := ev_mval event\<rparr>
       in case ev_kind event of
            EVT_MODAL_MAP val \<Rightarrow>
              if val = CD_MODAL_CONFIRM then
                bind_fault
                  (if tcd_state tcd = IN_MOVE then gpencil_pop_curve_point env tcd w
                   else Inr (tcd, w)) (\<lambda>(tcd1, w1).
                bind_fault (gpencil_curve_draw_confirm env tcd1 w1) (\<lambda>w2.
                bind_fault (gpencil_curve_draw_exit (put_tcd tcd1 w2)) (\<lambda>w3.
                  Inr (w3, OPERATOR_FINISHED))))
              else if val = CD_MODAL_CANCEL then
                (let w1 = w\<lparr>frame_strokes := remove1 (tcd_gps tcd) (frame_strokes w)\<rparr>
                 in bind_fault (free_stroke (tcd_gps tcd) w1) (\<lambda>w2.
                    bind_fault (gpencil_curve_draw_exit (put_tcd tcd w2)) (\<lambda>w3.
                      Inr (w3, OPERATOR_CANCELLED))))
              else if val = CD_MODAL_FREE_HANDLE_ON then
                (if tcd_state tcd = IN_DRAG_ALIGNED_HANDLE then
                   (let tcd1 = tcd\<lparr>tcd_state := IN_DRAG_FREE_HANDLE\<rparr>
                    in bind_fault (gpencil_set_handle_type_last_point tcd1 HD_FREE w) (\<lambda>w1.
                       bind_fault (gpencil_curve_draw_update env tcd1 w1) (\<lambda>w2.
                         modal_continue tcd1 w2)))
                 else modal_continue tcd w)
              else if val = CD_MODAL_FREE_HANDLE_OFF then
                (if tcd_state tcd = IN_DRAG_FREE_HANDLE then
                   (let tcd1 = tcd\<lparr>tcd_state := IN_DRAG_ALIGNED_HANDLE\<rparr>
                    in bind_fault (gpencil_set_handle_type_last_point tcd1 HD_ALIGN w) (\<lambda>w1.
                       bind_fault (gpencil_curve_draw_update env tcd1 w1) (\<lambda>w2.
                         modal_continue tcd1 w2)))
                 else modal_continue tcd w)
              else if val = CD_MODAL_CYCLIC_TOGGLE then
                bind_fault (get_stroke w (tcd_gps tcd)) (\<lambda>gps.
                  let w1 = put_stroke (tcd_gps tcd) (gps\<lparr>gps_cyclic := \<not> is_cyclic tcd\<rparr>) w;
                      tcd1 = tcd\<lparr>is_cyclic := \<not> is_cyclic tcd\<rparr>
                  in bind_fault (gpencil_curve_draw_update env tcd1 w1) (\<lambda>w2.
                       modal_continue tcd1 w2))
              else if val = CD_MODAL_DELETE_LAST then
                bind_fault
                  (if tcd_state tcd = IN_MOVE then gpencil_pop_curve_point env tcd w
                   else if tcd_state tcd = IN_DRAG_ALIGNED_HANDLE
                           \<or> tcd_state tcd = IN_DRAG_FREE_HANDLE
                   then Inr (tcd\<lparr>tcd_state := IN_MOVE\<rparr>, w)
                   else Inr (tcd, w)) (\<lambda>(tcd1, w1).
                bind_fault (gpencil_curve_draw_update env tcd1 w1) (\<lambda>w2.
                  modal_continue tcd1 w2))
              else if val = CD_MODAL_SET_THICKNESS then
                (if tcd_state tcd \<noteq> IN_SET_THICKNESS then
                   bind_fault (get_curve w (tcd_gpc tcd)) (\<lambda>gpc.
                     if curve_points gpc = [] then Inl OutOfBounds
                     else
                       let tcd1 = tcd\<lparr>tcd_state := IN_SET_THICKNESS,
                                      prev_pressure := cpt_pressure (last (curve_points gpc)),
                                      imval_start := imval tcd\<rparr>
                       in bind_fault (gpencil_curve_draw_update env tcd1 w) (\<lambda>w1.
                            modal_continue tcd1 w1))
                 else modal_continue tcd w)
              else modal_continue tcd w
          | LEFTMOUSE kv \<Rightarrow>
              if kv = KM_PRESS then
                (let tcd1 = tcd\<lparr>imval_start := imval tcd, is_mouse_down := True\<rparr>;
                     tcd2 = (if tcd_state tcd1 = IN_MOVE then tcd1\<lparr>tcd_state := IN_SET_VECTOR\<rparr>
                             else if tcd_state tcd1 = IN_SET_THICKNESS
                             then tcd1\<lparr>tcd_state := IN_MOVE\<rparr>
                             else tcd1)
                 in modal_continue tcd2 w)
              else if kv = KM_RELEASE then
                (let tcd1 = tcd\<lparr>imval_end := imval tcd, is_mouse_down := False\<rparr>
                 in bind_fault
                      (if tcd_state tcd1 = IN_SET_VECTOR \<or> tcd_state tcd1 = IN_DRAG_ALIGNED_HANDLE
                          \<or> tcd_state tcd1 = IN_DRAG_FREE_HANDLE
                       then (let tcd2 = tcd1\<lparr>tcd_state := IN_MOVE\<rparr>
                             in bind_fault (gpencil_push_curve_point env tcd2 w) (\<lambda>w1.
                                  Inr (tcd2, w1)))
                       else Inr (tcd1, w)) (\<lambda>(tcd2, w1).
                    bind_fault (gpencil_curve_draw_update env tcd2 w1) (\<lambda>w2.
                      modal_continue tcd2 w2)))
              else modal_continue tcd w
          | MOUSEMOVE \<Rightarrow>
              bind_fault
                (if tcd_state tcd = IN_SET_VECTOR
                    \<and> len_v2v2_int (imval tcd) (imval_start tcd) > drag_threshold
                 then (let tcd1 = tcd\<lparr>tcd_state := IN_DRAG_ALIGNED_HANDLE\<rparr>
                       in bind_fault (gpencil_set_handle_type_last_point tcd1 HD_ALIGN w) (\<lambda>w1.
                            Inr (tcd1, w1)))
                 else Inr (tcd, w)) (\<lambda>(tcd1, w1).
              bind_fault (gpencil_curve_draw_update env tcd1 w1) (\<lambda>w2.
                modal_continue tcd1 w2))
          | OTHER_EVENT \<Rightarrow>
              Inr (put_tcd (tcd\<lparr>imval_prev := imval tcd\<rparr>) w,
                   OPERATOR_RUNNING_MODAL_PASS_THROUGH))"

definition gpencil_curve_draw_cancel :: "'g curve_world \<Rightarrow> fault + 'g curve_world" where
  "gpencil_curve_draw_cancel w = gpencil_curve_draw_exit w"

text \<open>The window manager hands the events to the modal callback one after the other for as
  long as the operator keeps running; the result is the state and return value of the last
  call (\<^verbatim>\<open>OPERATOR_RUNNING_MODAL\<close> when the operator is still running after all events).\<close>

fun curve_draw_events ::
  "'g curve_env \<Rightarrow> wmEvent list \<Rightarrow> 'g curve_world \<Rightarrow> fault + ('g curve_world \<times> operator_return)" where
  "curve_draw_events env [] w = Inr (w, OPERATOR_RUNNING_MODAL)"
| "curve_draw_events env (e # es) w =
     bind_fault (gpencil_curve_draw_modal env e w) (\<lambda>(w1, r).
       if r = OPERATOR_FINISHED \<or> r = OPERATOR_CANCELLED then Inr (w1, r)
       else curve_draw_events env es w1)"

text \<open>A session of the tool: the invocation, then the events.\<close>

definition curve_draw_session ::
  "'g curve_env \<Rightarrow> wmEvent \<Rightarrow> wmEvent list \<Rightarrow> 'g curve_world \<Rightarrow>
   fault + ('g curve_world \<times> operator_return)" where
  "curve_draw_session env event es w =
     bind_fault (gpencil_curve_draw_invoke env event w) (\<lambda>(w1, r).
       curve_draw_events env es w1)"

text \<open>The allocator hands out references that are not in use: no stroke or curve is allocated
  at or above the next unused reference, and the strokes of the frame lie below it.\<close>

definition world_ok :: "'g curve_world \<Rightarrow> bool" where
  "world_ok w =
     ((\<forall>r \<ge> next_ref w. stroke_heap w r = None \<and> curve_heap w r = None)
      \<and> list_all (\<lambda>r. r < next_ref w) (frame_strokes w))"

text \<open>The state of a running tool whose stroke is \<open>g\<close> and whose curve is \<open>c\<close>, relative to the
  frame list \<open>pre\<close> and the heaps \<open>sh\<close> and \<open>ch\<close> from before the invocation: the stroke of the tool
  is the last of the frame and is the only addition to the list and to the stroke heap, its
  edit curve is \<open>c\<close>, which is the only addition to the curve heap.\<close>

definition tool_inv ::
  "nat list \<Rightarrow> (nat \<rightharpoonup> 'g bGPDstroke) \<Rightarrow> (nat \<rightharpoonup> bGPDcurve) \<Rightarrow> nat \<Rightarrow> nat \<Rightarrow>
   'g curve_world \<Rightarrow> bool" where
  "tool_inv pre sh ch g c w =
     (frame_strokes w = pre @ [g] \<and> g \<notin> set pre
      \<and> (case stroke_heap w g of None \<Rightarrow> False | Some gps \<Rightarrow> editcurve gps = Some c)
      \<and> curve_heap w c \<noteq> None
      \<and> (stroke_heap w)(g := None) = sh \<and> (curve_heap w)(c := None) = ch
      \<and> (\<forall>r \<ge> next_ref w. stroke_heap w r = None \<and> curve_heap w r = None)
      \<and> list_all (\<lambda>r. r < next_ref w) pre)"

text \<open>The number of control points of the curve \<open>c\<close> (0 when it is not allocated).\<close>

definition curve_count :: "nat \<Rightarrow> 'g curve_world \<Rightarrow> nat" where
  "curve_count c w = (case curve_heap w c of None \<Rightarrow> 0 | Some gpc \<Rightarrow> length (curve_points gpc))"

text \<open>A control point without the positions of its two handles, which the handle
  recalculation rewrites: the anchor, the handle types and every other attribute.\<close>

definition anchor_data :: "bGPDcurve_point \<Rightarrow> bGPDcurve_point" where
  "anchor_data cpt = cpt\<lparr>bezt := (bezt cpt)\<lparr>vec0 := (0, 0, 0), vec2 := (0, 0, 0)\<rparr>\<rparr>"

text \<open>What a session leaves behind: the control points of the edit curve of the last stroke of
  the frame, with the return value of the operator; \<open>None\<close> when the session faults or the frame
  ends without such a curve.\<close>

definition persisted_curve_points :: "'g curve_world \<Rightarrow> bGPDcurve_point list option" where
  "persisted_curve_points w =
     (if frame_strokes w = [] then None
      else case stroke_heap w (last (frame_strokes w)) of
             None \<Rightarrow> None
           | Some gps \<Rightarrow>
               (case editcurve gps of
                  None \<Rightarrow> None
                | Some c \<Rightarrow>
                    (case curve_heap w c of None \<Rightarrow> None | Some gpc \<Rightarrow> Some (curve_points gpc))))"

definition session_points ::
  "'g curve_env \<Rightarrow> wmEvent \<Rightarrow> wmEvent list \<Rightarrow> 'g curve_world \<Rightarrow>
   (bGPDcurve_point list \<times> operator_return) option" where
  "session_points env event es w =
     (case curve_draw_session env event es w of
        Inl e \<Rightarrow> None
      | Inr (w1, r) \<Rightarrow>
          (case persisted_curve_points w1 of None \<Rightarrow> None | Some cps \<Rightarrow> Some (cps, r)))"


subsection \<open>A concrete session\<close>

text \<open>A view that maps the pointer position \<open>(x, y)\<close> to the point \<open>(x, y, 0)\<close>, a curve
  sampling that yields the anchors, handles that stay where they are, and a frame that already
  holds one stroke.\<close>

definition example_env :: "unit curve_env" where
  "example_env =
     \<lparr>drawing_reference = (0, 0, 0), calc_zfac = (\<lambda>r. 1),
      project_float_global = (\<lambda>r. Some (0, 0)),
      win_to_delta = (\<lambda>d z. (fst d, snd d, 0)),
      brush_size = 3, brush_hardeness = 1, brush_aspect_ratio = (1, 1),
      stroke_template = \<lparr>gps_points = [], gps_cyclic = False, gps_thickness = 0,
                          gps_hardeness = 0, gps_aspect_ratio = (0, 0), editcurve = None,
                          gps_geometry = ()\<rparr>,
      spoint_template = \<lparr>pt_co = (0, 0, 0), pt_pressure = 0, pt_strength = 0\<rparr>,
      curve_point_template =
        \<lparr>bezt = \<lparr>vec0 = (0, 0, 0), vec1 = (0, 0, 0), vec2 = (0, 0, 0), h1 = HD_FREE, h2 = HD_FREE,
                  f1_select = False, f2_select = False, f3_select = False\<rparr>,
         cpt_pressure = 0, cpt_strength = 0, point_index = 0, cpt_select = False\<rparr>,
      curve_template_flag = 0, curve_edit_resolution = 32,
      sample_curve = (\<lambda>s c r. map (\<lambda>cpt. \<lparr>pt_co = vec1 (bezt cpt), pt_pressure = cpt_pressure cpt,
                                            pt_strength = cpt_strength cpt\<rparr>) (curve_points c)),
      stroke_geometry = (\<lambda>s. ()),
      recalculate_handle = (\<lambda>cps i. (vec0 (bezt (cps ! i)), vec2 (bezt (cps ! i))))\<rparr>"

definition example_world :: "unit curve_world" where
  "example_world =
     \<lparr>frame_strokes = [0],
      stroke_heap = [0 \<mapsto> \<lparr>gps_points = [], gps_cyclic = False, gps_thickness = 1,
                            gps_hardeness = 1, gps_aspect_ratio = (1, 1), editcurve = None,
                            gps_geometry = ()\<rparr>],
      curve_heap = Map.empty,
      next_ref = 1,
      customdata = None\<rparr>"

definition example_press :: wmEvent where
  "example_press =
     \<lparr>ev_kind = LEFTMOUSE KM_PRESS, ev_val_press = True, ev_mval = (100, 100),
      ev_drag_threshold = 3\<rparr>"

definition example_move :: wmEvent where
  "example_move =
     \<lparr>ev_kind = MOUSEMOVE, ev_val_press = False, ev_mval = (150, 100),
      ev_drag_threshold = 3\<rparr>"

definition example_release :: wmEvent where
  "example_release =
     \<lparr>ev_kind = LEFTMOUSE KM_RELEASE, ev_val_press = False, ev_mval = (150, 100),
      ev_drag_threshold = 3\<rparr>"

definition example_command :: "int \<Rightarrow> wmEvent" where
  "example_command val =
     \<lparr>ev_kind = EVT_MODAL_MAP val, ev_val_press = False, ev_mval = (150, 100),
      ev_drag_threshold = 3\<rparr>"

chapter \<open>Verified properties\<close>

section \<open>Subsurface-scattering integration step\<close>

text \<open>
  Claim C8. For every input state the kernel leaves the state equal to the input with its
  intersection record replaced by the no-intersection record: distance and barycentric
  coordinates zero, zero normal, and the three identifiers at their sentinels. The throughput
  written back is the one read, so the path record and every other part of the state are
  unchanged.
\<close>

theorem kernel_integrate_subsurface_writes:
  "kernel_integrate_subsurface k state =
     state\<lparr>isect := \<lparr>isect_t = 0, isect_u = 0, isect_v = 0, isect_Ng = (0, 0, 0),
                       isect_object = OBJECT_NONE k, isect_prim = PRIM_NONE k,
                       isect_type = PRIMITIVE_NONE k\<rparr>\<rparr>"
  by (simp add: kernel_integrate_subsurface_def Let_def)

section \<open>Spreadsheet panel\<close>

lemma visible_row_loop_bound: "i \<in> set (visible_row_loop a stop n) \<Longrightarrow> a \<le> i \<and> i < n"
proof (induction a stop n rule: visible_row_loop.induct)
  case (1 a stop n)
  then show ?case
    by (subst (asm) (2) visible_row_loop.simps) (auto split: if_splits)
qed

lemma draw_cell_columns_rows:
  "c \<in> set (draw_cell_columns region l rows off (a, k) ci x cols) \<Longrightarrow>
   cell_row c < int (length rows)"
  by (induction cols arbitrary: ci x) (auto simp: Let_def dest: visible_row_loop_bound)

text \<open>
  Claim C7. With row height 20 and region height 500 the number of rows requested is 26
  whatever the scroll offset, the first row is 0 at offset 0 and 2 at offset \<open>-40\<close>, and
  neither the index-column loop nor the cell loop reads \<^verbatim>\<open>row_indices\<close> at an index at or
  beyond the number of rows.
\<close>

theorem spreadsheet_visible_rows:
  assumes "row_height l = 20" and "winy r = 500"
  shows "snd (get_visible_rows l r off) = 26
       \<and> fst (get_visible_rows l r 0) = 0
       \<and> fst (get_visible_rows l r (- 40)) = 2
       \<and> (\<forall>b \<in> set (draw_row_indices off rows r l). but_row b < int (length rows))
       \<and> (\<forall>c \<in> set (draw_cell_contents r l rows offx off). cell_row c < int (length rows))"
proof -
  have a: "snd (get_visible_rows l r off) = 26"
    and b: "fst (get_visible_rows l r 0) = 0"
    and c: "fst (get_visible_rows l r (- 40)) = 2"
    using assms by (simp_all add: get_visible_rows_def signed_divide_int_def)
  have d: "\<forall>b \<in> set (draw_row_indices off rows r l). but_row b < int (length rows)"
    by (auto simp: draw_row_indices_def split: prod.splits dest: visible_row_loop_bound)
  have e: "\<forall>c \<in> set (draw_cell_contents r l rows offx off). cell_row c < int (length rows)"
    unfolding draw_cell_contents_def
    by (cases "get_visible_rows l r off") (auto dest: draw_cell_columns_rows)
  from a b c d e show ?thesis by blast
qed

theorem spreadsheet_visible_rows_witness:
  "row_height \<lparr>index_column_width = 40, title_row_height = 30, row_height = 20,
                columns = [\<lparr>column_width = 100\<rparr>]\<rparr> = 20
   \<and> winy \<lparr>winx = 800, winy = 500\<rparr> = 500
   \<and> get_visible_rows \<lparr>index_column_width = 40, title_row_height = 30, row_height = 20,
                        columns = [\<lparr>column_width = 100\<rparr>]\<rparr> \<lparr>winx = 800, winy = 500\<rparr> (- 40) = (2, 26)
   \<and> map but_row (draw_row_indices (- 40) [0, 1, 2, 3] \<lparr>winx = 800, winy = 500\<rparr>
        \<lparr>index_column_width = 40, title_row_height = 30, row_height = 20,
         columns = [\<lparr>column_width = 100\<rparr>]\<rparr>) = [2, 3]
   \<and> map cell_row (draw_cell_contents \<lparr>winx = 800, winy = 500\<rparr>
        \<lparr>index_column_width = 40, title_row_height = 30, row_height = 20,
         columns = [\<lparr>column_width = 100\<rparr>]\<rparr> [0, 1, 2, 3] 0 (- 40)) = [2, 3]"
  using spreadsheet_visible_rows [of "\<lparr>index_column_width = 40, title_row_height = 30, row_height = 20,
                columns = [\<lparr>column_width = 100\<rparr>]\<rparr>" "\<lparr>winx = 800, winy = 500\<rparr>" "- 40" "[0, 1, 2, 3]" 0]
  by (simp add: get_visible_rows_def signed_divide_int_def draw_row_indices_def
      draw_cell_contents_def visible_row_loop.simps)

section \<open>Vector-stroke offset deformer\<close>

lemma deform_points_loop_length [simp]:
  "length (deform_points_loop env mmd gps is pts) = length pts"
  by (induction "is" arbitrary: pts) auto

lemma deform_points_loop_nth_notin:
  "i \<notin> set is \<Longrightarrow> deform_points_loop env mmd gps is pts ! i = pts ! i"
  by (induction "is" arbitrary: pts) auto

lemma deform_points_loop_nth:
  "distinct is \<Longrightarrow> i \<in> set is \<Longrightarrow> i < length pts \<Longrightarrow>
   deform_points_loop env mmd gps is pts ! i = deform_point mmd (point_weight env mmd gps i) (pts ! i)"
proof (induction "is" arbitrary: pts)
  case Nil
  then show ?case by simp
next
  case (Cons j js)
  show ?case
  proof (cases "i = j")
    case True
    with Cons.prems have "i \<notin> set js" by simp
    then show ?thesis using True Cons.prems
      by (simp add: deform_points_loop_nth_notin)
  next
    case False
    with Cons show ?thesis by simp
  qed
qed

lemma deformPolyline_nth:
  assumes "is_stroke_affected_by_modifier env gps" "i < length (os_points gps)"
  shows "os_points (deformPolyline env mmd gps) ! i =
         deform_point mmd (point_weight env mmd gps i) (os_points gps ! i)"
  using assms by (simp add: deformPolyline_def Let_def deform_points_loop_nth)

lemma eul_to_mat3_zero: "eul_to_mat3 (0,0,0) c r = (if (c = 0 \<and> r = 0) \<or> (c = 1 \<and> r = 1) \<or> (c \<noteq> 0 \<and> c \<noteq> 1 \<and> r \<noteq> 0 \<and> r \<noteq> 1) then 1 else 0)"
  by (simp add: eul_to_mat3_def)

lemma mul_m4_v3_decompose:
  "mul_m4_v3 (loc_eul_size_to_mat4 loc eul (s0, s1, s2)) (x, y, z) =
   (case mul_m4_v3 (loc_eul_size_to_mat4 (0,0,0) eul (1,1,1)) (s0 * x, s1 * y, s2 * z) of (a, b, c) \<Rightarrow>
     (a + v3_nth loc 0, b + v3_nth loc 1, c + v3_nth loc 2))"
  by (simp add: mul_m4_v3_def loc_eul_size_to_mat4_def v3_nth_def algebra_simps)

lemma deform_point_zero: "deform_point mmd 0 pt = pt"
  by (cases "pt_co pt") (simp add: deform_point_def mul_v3_v3fl_def add_v3_fl_def Let_def v3_nth_def
      mul_m4_v3_def loc_eul_size_to_mat4_def eul_to_mat3_def split: prod.splits)

text \<open>
  Claim C6. For a point of an affected stroke whose weight \<open>w\<close> is not negative, the deformed
  position is the rotation and translation (both scaled by \<open>w\<close>, and with unit size) of the
  point scaled per axis by \<open>1 + w * scale\<close>, and the pressure is multiplied by the mean of the
  three factors. At weight 0 the point is unchanged; at weight 1 the factors are one plus the
  configured scale.
\<close>

theorem deformPolyline_weight_scale:
  assumes "is_stroke_affected_by_modifier env gps"
    and "i < length (os_points gps)"
    and "0 \<le> point_weight env mmd gps i"
    and "offset_scale mmd = (sx, sy, sz)"
    and "pt_co (os_points gps ! i) = (x, y, z)"
  shows "let w = point_weight env mmd gps i;
             pt = os_points gps ! i;
             pt' = os_points (deformPolyline env mmd gps) ! i
         in pt' = deform_point mmd w pt
          \<and> pt_co pt' =
              mul_m4_v3 (loc_eul_size_to_mat4 (mul_v3_v3fl (offset_loc mmd) w)
                           (mul_v3_v3fl (offset_rot mmd) w) (1, 1, 1))
                ((1 + w * sx) * x, (1 + w * sy) * y, (1 + w * sz) * z)
          \<and> pt_pressure pt' = pt_pressure pt * (((1 + w * sx) + (1 + w * sy) + (1 + w * sz)) / 3)
          \<and> deform_point mmd 0 pt = pt
          \<and> pt_co (deform_point mmd 1 pt) =
              mul_m4_v3 (loc_eul_size_to_mat4 (offset_loc mmd) (offset_rot mmd) (1, 1, 1))
                ((1 + sx) * x, (1 + sy) * y, (1 + sz) * z)"
proof -
  define w where "w = point_weight env mmd gps i"
  define pt where "pt = os_points gps ! i"
  have nth: "os_points (deformPolyline env mmd gps) ! i = deform_point mmd w pt"
    using assms(1,2) by (simp add: deformPolyline_nth w_def pt_def)
  have w0: "\<not> w < 0" using assms(3) by (simp add: w_def)
  have co: "pt_co pt = (x, y, z)" using assms(5) by (simp add: pt_def)
  have pos: "pt_co (deform_point mmd w pt) =
      mul_m4_v3 (loc_eul_size_to_mat4 (mul_v3_v3fl (offset_loc mmd) w)
                   (mul_v3_v3fl (offset_rot mmd) w) (1, 1, 1))
        ((1 + w * sx) * x, (1 + w * sy) * y, (1 + w * sz) * z)"
    using w0 assms(4) co
    by (simp add: deform_point_def Let_def mul_v3_v3fl_def add_v3_fl_def mul_m4_v3_def
        loc_eul_size_to_mat4_def v3_nth_def algebra_simps)
  have pr: "pt_pressure (deform_point mmd w pt) =
      pt_pressure pt * (((1 + w * sx) + (1 + w * sy) + (1 + w * sz)) / 3)"
    using w0 assms(4)
    by (simp add: deform_point_def Let_def mul_v3_v3fl_def add_v3_fl_def v3_nth_def algebra_simps)
  have one: "pt_co (deform_point mmd 1 pt) =
      mul_m4_v3 (loc_eul_size_to_mat4 (offset_loc mmd) (offset_rot mmd) (1, 1, 1))
        ((1 + sx) * x, (1 + sy) * y, (1 + sz) * z)"
    using assms(4) co
    by (cases "offset_loc mmd"; cases "offset_rot mmd")
       (simp add: deform_point_def Let_def mul_v3_v3fl_def add_v3_fl_def mul_m4_v3_def
        loc_eul_size_to_mat4_def v3_nth_def algebra_simps)
  show ?thesis
    unfolding Let_def w_def [symmetric] pt_def [symmetric]
    using nth pos pr one deform_point_zero [of mmd pt] by simp
qed

theorem deformPolyline_weight_scale_witness:
  "is_stroke_affected_by_modifier
     \<lparr>is_stroke_affected_by_modifier = (\<lambda>g. True), BKE_object_defgroup_name_index = 0,
      get_modifier_point_weight = (\<lambda>d inv n. 1 / 2), stroke_geometry_update = (\<lambda>ps. ())\<rparr>
     \<lparr>os_points = [\<lparr>pt_co = (1, 2, 4), pt_pressure = 1, pt_strength = 1\<rparr>],
      os_dvert = (None :: unit list option), os_geometry = ()\<rparr>
   \<and> os_points (deformPolyline
        \<lparr>is_stroke_affected_by_modifier = (\<lambda>g. True), BKE_object_defgroup_name_index = 0,
         get_modifier_point_weight = (\<lambda>d inv n. 1 / 2), stroke_geometry_update = (\<lambda>ps. ())\<rparr>
        \<lparr>offset_flag = {}, offset_loc = (0, 0, 0), offset_rot = (0, 0, 0), offset_scale = (1, 1, 1)\<rparr>
        \<lparr>os_points = [\<lparr>pt_co = (1, 2, 4), pt_pressure = 1, pt_strength = 1\<rparr>],
         os_dvert = (None :: unit list option), os_geometry = ()\<rparr>) ! 0
     = \<lparr>pt_co = (3 / 2, 3, 6), pt_pressure = 3 / 2, pt_strength = 1\<rparr>"
  using deformPolyline_weight_scale [of
     "\<lparr>is_stroke_affected_by_modifier = (\<lambda>g. True), BKE_object_defgroup_name_index = 0,
      get_modifier_point_weight = (\<lambda>d inv n. 1 / 2), stroke_geometry_update = (\<lambda>ps. ())\<rparr>"
     "\<lparr>os_points = [\<lparr>pt_co = (1, 2, 4), pt_pressure = 1, pt_strength = 1\<rparr>],
      os_dvert = (None :: unit list option), os_geometry = ()\<rparr>"
     0
     "\<lparr>offset_flag = {}, offset_loc = (0, 0, 0), offset_rot = (0, 0, 0), offset_scale = (1, 1, 1)\<rparr>"
     1 1 1 1 2 4]
  by (simp add: point_weight_def Let_def deform_point_def mul_v3_v3fl_def add_v3_fl_def
      mul_m4_v3_def loc_eul_size_to_mat4_def v3_nth_def eul_to_mat3_def)

section \<open>Dynamic topology: throttle ratio\<close>

lemma len_v3v3_nonneg: "0 \<le> len_v3v3 a b"
  by (cases a, cases b) (simp add: len_v3v3_def len_squared_v3v3_def)

lemma edge_queue_insert_mono:
  "avg_elen q \<le> avg_elen (edge_queue_insert q m e pr) \<and>
   totedge q \<le> totedge (edge_queue_insert q m e pr)"
  by (cases e) (simp add: edge_queue_insert_def Let_def len_v3v3_nonneg)

lemma edge_queue_fold_mono:
  "avg_elen q \<le> avg_elen (foldl (\<lambda>q e. edge_queue_insert q m e (pr e)) q es) \<and>
   totedge q \<le> totedge (foldl (\<lambda>q e. edge_queue_insert q m e (pr e)) q es)"
proof (induction es arbitrary: q)
  case Nil
  then show ?case by simp
next
  case (Cons e es)
  have a: "avg_elen q \<le> avg_elen (edge_queue_insert q m e (pr e))"
    and b: "totedge q \<le> totedge (edge_queue_insert q m e (pr e))"
    using edge_queue_insert_mono [of q m e "pr e"] by simp_all
  from Cons.IH [of "edge_queue_insert q m e (pr e)"] a b show ?case by simp
qed

lemma short_edge_queue_create_mono:
  "avg_elen q \<le> avg_elen (snd (short_edge_queue_create ops dab p q)) \<and>
   totedge q \<le> totedge (snd (short_edge_queue_create ops dab p q))"
  using edge_queue_fold_mono [of "q\<lparr>q_heap := []\<rparr>"]
  by (simp add: short_edge_queue_create_def split: prod.splits)

lemma long_edge_queue_create_mono:
  "avg_elen q \<le> avg_elen (snd (long_edge_queue_create ops dab p q)) \<and>
   totedge q \<le> totedge (snd (long_edge_queue_create ops dab p q))"
  using edge_queue_fold_mono [of "q\<lparr>q_heap := []\<rparr>"]
  by (simp add: long_edge_queue_create_def split: prod.splits)

lemma clamp_bounds: "lo \<le> hi \<Longrightarrow> lo \<le> MIN2 (MAX2 x lo) hi \<and> MIN2 (MAX2 x lo) hi \<le> hi"
  by (simp add: MIN2_def MAX2_def)

lemma collapse_throttle_ratio_bounds:
  "1/4 \<le> r \<Longrightarrow> r \<le> 5 \<Longrightarrow>
   1/4 \<le> collapse_throttle_ratio p q r \<and> collapse_throttle_ratio p q r \<le> 5"
  using clamp_bounds [of "0.25" "5.0"]
  by (simp add: collapse_throttle_ratio_def Let_def)

lemma collapse_throttle_ratio_cases:
  "collapse_throttle_ratio p q r = r \<or> (0 < totedge q \<and> 0 < avg_elen q)"
  by (auto simp: collapse_throttle_ratio_def Let_def zero_less_divide_iff)

lemma subdivide_throttle_ratio_bounds:
  "1/20 \<le> r \<Longrightarrow> r \<le> 1 \<Longrightarrow>
   1/20 \<le> subdivide_throttle_ratio p q r \<and> subdivide_throttle_ratio p q r \<le> 1"
  using clamp_bounds [of "0.05" "1.0"]
  by (simp add: subdivide_throttle_ratio_def Let_def)

lemma subdivide_throttle_ratio_clamped:
  "0 < totedge q \<Longrightarrow> 0 < avg_elen q \<Longrightarrow>
   1/20 \<le> subdivide_throttle_ratio p q r \<and> subdivide_throttle_ratio p q r \<le> 1"
  using clamp_bounds [of "0.05" "1.0"]
  by (simp add: subdivide_throttle_ratio_def Let_def)

lemma collapse_pass_fields:
  "ts_ratio (collapse_pass ops dab s) =
     collapse_throttle_ratio (fst (short_edge_queue_create ops dab (ts_pbvh s) (ts_eq_ctx s)))
       (snd (short_edge_queue_create ops dab (ts_pbvh s) (ts_eq_ctx s))) (ts_ratio s)"
  "ts_eq_ctx (collapse_pass ops dab s) = snd (short_edge_queue_create ops dab (ts_pbvh s) (ts_eq_ctx s))"
  "ts_max_steps (collapse_pass ops dab s) =
     float_to_int (real_of_int DYNTOPO_MAX_ITER * ts_ratio (collapse_pass ops dab s))"
  by (simp_all add: collapse_pass_def Let_def split: prod.splits)

lemma subdivide_pass_fields:
  "ts_ratio (subdivide_pass ops dab s) =
     subdivide_throttle_ratio (fst (long_edge_queue_create ops dab (ts_pbvh s) (ts_eq_ctx s)))
       (snd (long_edge_queue_create ops dab (ts_pbvh s) (ts_eq_ctx s))) (ts_ratio s)"
  "ts_max_steps (subdivide_pass ops dab s) =
     float_to_int (real_of_int DYNTOPO_MAX_ITER * ts_ratio (subdivide_pass ops dab s))"
  by (simp_all add: subdivide_pass_def Let_def split: prod.splits)

lemma topo_begin_fields: "ts_ratio (topo_begin p) = 1"
  by (simp add: topo_begin_def)

lemma subdivide_after_collapse:
  "1/20 \<le> ts_ratio (subdivide_pass ops dab (collapse_pass ops dab (topo_begin p))) \<and>
   ts_ratio (subdivide_pass ops dab (collapse_pass ops dab (topo_begin p))) \<le> 1"
proof -
  define s0 where "s0 = topo_begin p"
  define s1 where "s1 = collapse_pass ops dab s0"
  define q1 where "q1 = snd (short_edge_queue_create ops dab (ts_pbvh s0) (ts_eq_ctx s0))"
  define q2 where "q2 = snd (long_edge_queue_create ops dab (ts_pbvh s1) (ts_eq_ctx s1))"
  have eq1: "ts_eq_ctx s1 = q1" by (simp add: s1_def q1_def collapse_pass_fields)
  have mono: "avg_elen q1 \<le> avg_elen q2" "totedge q1 \<le> totedge q2"
    using long_edge_queue_create_mono [of q1 ops dab "ts_pbvh s1"] by (simp_all add: q2_def eq1)
  have r1: "ts_ratio s1 = collapse_throttle_ratio
        (fst (short_edge_queue_create ops dab (ts_pbvh s0) (ts_eq_ctx s0))) q1 1"
    by (simp add: s1_def q1_def collapse_pass_fields s0_def topo_begin_fields)
  have r2: "ts_ratio (subdivide_pass ops dab s1) = subdivide_throttle_ratio
        (fst (long_edge_queue_create ops dab (ts_pbvh s1) (ts_eq_ctx s1))) q2 (ts_ratio s1)"
    by (simp add: q2_def subdivide_pass_fields)
  from collapse_throttle_ratio_cases [of "fst (short_edge_queue_create ops dab (ts_pbvh s0) (ts_eq_ctx s0))" q1 1]
  have "ts_ratio s1 = 1 \<or> (0 < totedge q1 \<and> 0 < avg_elen q1)" by (simp add: r1)
  then have "1/20 \<le> ts_ratio (subdivide_pass ops dab s1) \<and> ts_ratio (subdivide_pass ops dab s1) \<le> 1"
  proof
    assume "ts_ratio s1 = 1"
    then show ?thesis using subdivide_throttle_ratio_bounds [of 1] by (simp add: r2)
  next
    assume "0 < totedge q1 \<and> 0 < avg_elen q1"
    with mono have "0 < totedge q2" "0 < avg_elen q2" by simp_all
    then show ?thesis using subdivide_throttle_ratio_clamped by (simp add: r2)
  qed
  then show ?thesis by (simp add: s1_def s0_def)
qed

text \<open>
  Claim C1. Whatever edges the queue constructors insert, the ratio from which the collapse
  block computes \<^verbatim>\<open>max_steps\<close> lies in \<open>[1/4, 5]\<close>, and the ratio from which the subdivision
  block computes \<^verbatim>\<open>max_steps\<close> lies in \<open>[1/20, 1]\<close>, whether or not the collapse block ran before
  it in the same call.
\<close>

theorem throttle_ratio_bounds:
  "let s0 = topo_begin pbvh;
       sc = collapse_pass ops dab s0;
       s1 = (if PBVH_Collapse \<in> mode then sc else s0);
       ss = subdivide_pass ops dab s1
   in (1/4 \<le> ts_ratio sc \<and> ts_ratio sc \<le> 5
       \<and> ts_max_steps sc = float_to_int (real_of_int DYNTOPO_MAX_ITER * ts_ratio sc))
    \<and> (1/20 \<le> ts_ratio ss \<and> ts_ratio ss \<le> 1
       \<and> ts_max_steps ss = float_to_int (real_of_int DYNTOPO_MAX_ITER * ts_ratio ss))"
proof -
  have c: "1/4 \<le> ts_ratio (collapse_pass ops dab (topo_begin pbvh))
      \<and> ts_ratio (collapse_pass ops dab (topo_begin pbvh)) \<le> 5"
    using collapse_throttle_ratio_bounds [of 1]
    by (simp add: collapse_pass_fields topo_begin_fields)
  have s: "1/20 \<le> ts_ratio (subdivide_pass ops dab (topo_begin pbvh))
      \<and> ts_ratio (subdivide_pass ops dab (topo_begin pbvh)) \<le> 1"
    using subdivide_throttle_ratio_bounds [of 1]
    by (simp add: subdivide_pass_fields topo_begin_fields)
  show ?thesis
    using c s subdivide_after_collapse [of ops dab pbvh]
    by (simp add: Let_def collapse_pass_fields(3) subdivide_pass_fields(2))
qed


section \<open>Curve drawing tool\<close>

lemma bind_fault_Inr: "bind_fault m f = Inr y \<longleftrightarrow> (\<exists>x. m = Inr x \<and> f x = Inr y)"
  by (cases m) (simp_all add: bind_fault_def)

lemma tool_inv_get_stroke:
  "tool_inv pre sh ch g c w \<Longrightarrow> \<exists>gps. get_stroke w g = Inr gps \<and> editcurve gps = Some c"
  by (auto simp: tool_inv_def get_stroke_def split: option.splits)

lemma tool_inv_get_curve:
  "tool_inv pre sh ch g c w \<Longrightarrow> \<exists>gpc. get_curve w c = Inr gpc"
  by (auto simp: tool_inv_def get_curve_def split: option.splits)

lemma tool_inv_put_stroke:
  "tool_inv pre sh ch g c w \<Longrightarrow> editcurve gps = Some c \<Longrightarrow> tool_inv pre sh ch g c (put_stroke g gps w)"
  by (auto simp: tool_inv_def put_stroke_def split: option.splits)

lemma tool_inv_put_curve:
  "tool_inv pre sh ch g c w \<Longrightarrow> tool_inv pre sh ch g c (put_curve c gpc w)"
  by (auto simp: tool_inv_def put_curve_def split: option.splits)

lemma get_stroke_Inr: "get_stroke w r = Inr x \<longleftrightarrow> stroke_heap w r = Some x"
  by (simp add: get_stroke_def split: option.splits)

lemma get_curve_Inr: "get_curve w r = Inr x \<longleftrightarrow> curve_heap w r = Some x"
  by (simp add: get_curve_def split: option.splits)

lemma tool_inv_stroke_editcurve:
  "tool_inv pre sh ch g c w \<Longrightarrow> stroke_heap w g = Some gps \<Longrightarrow> editcurve gps = Some c"
  by (simp add: tool_inv_def)

lemma update_last_point_inv:
  "tool_inv pre sh ch g c w \<Longrightarrow> update_last_point f c w = Inr w' \<Longrightarrow> tool_inv pre sh ch g c w'"
  by (auto simp: update_last_point_def bind_fault_Inr tool_inv_put_curve split: if_splits)

lemma editcurve_recalculate_handles_inv:
  assumes "tool_inv pre sh ch g c w" and "editcurve_recalculate_handles env g w = Inr w'"
  shows "tool_inv pre sh ch g c w'"
proof -
  from assms(2) obtain gps where g: "stroke_heap w g = Some gps"
    and r: "(case editcurve gps of None \<Rightarrow> Inr w
             | Some c \<Rightarrow> bind_fault (get_curve w c) (\<lambda>gpc.
                 Inr (put_curve c
                    (gpc\<lparr>curve_points := recalculate_handles_points env (curve_points gpc)\<rparr>) w)))
            = Inr w'"
    by (auto simp: editcurve_recalculate_handles_def bind_fault_Inr get_stroke_Inr)
  from assms(1) g have "editcurve gps = Some c" by (rule tool_inv_stroke_editcurve)
  with r assms(1) show ?thesis by (auto simp: bind_fault_Inr tool_inv_put_curve)
qed

lemma stroke_update_geometry_from_editcurve_inv:
  assumes "tool_inv pre sh ch g c w"
    and "stroke_update_geometry_from_editcurve env g res w = Inr w'"
  shows "tool_inv pre sh ch g c w'"
proof -
  from assms(2) obtain gps where g: "stroke_heap w g = Some gps"
    and r: "(case editcurve gps of None \<Rightarrow> Inr w
             | Some c \<Rightarrow> bind_fault (get_curve w c) (\<lambda>gpc.
                 Inr (put_stroke g (gps\<lparr>gps_points := sample_curve env gps gpc res\<rparr>) w)))
            = Inr w'"
    by (auto simp: stroke_update_geometry_from_editcurve_def bind_fault_Inr get_stroke_Inr)
  from assms(1) g have "editcurve gps = Some c" by (rule tool_inv_stroke_editcurve)
  with r assms(1) show ?thesis by (auto simp: bind_fault_Inr tool_inv_put_stroke)
qed

lemma stroke_geometry_update_inv:
  assumes "tool_inv pre sh ch g c w" and "stroke_geometry_update env g w = Inr w'"
  shows "tool_inv pre sh ch g c w'"
proof -
  from assms(2) obtain gps where g: "stroke_heap w g = Some gps"
    and r: "w' = put_stroke g (gps\<lparr>gps_geometry := stroke_geometry env gps\<rparr>) w"
    by (auto simp: stroke_geometry_update_def bind_fault_Inr get_stroke_Inr)
  from assms(1) g have "editcurve gps = Some c" by (rule tool_inv_stroke_editcurve)
  with r assms(1) show ?thesis by (simp add: tool_inv_put_stroke)
qed

lemma gpencil_set_alpha_last_segment_inv:
  assumes "tool_inv pre sh ch (tcd_gps tcd) (tcd_gpc tcd) w"
    and "gpencil_set_alpha_last_segment tcd alpha w = Inr w'"
  shows "tool_inv pre sh ch (tcd_gps tcd) (tcd_gpc tcd) w'"
proof -
  from assms(2) obtain gps gpc where g: "stroke_heap w (tcd_gps tcd) = Some gps"
    and r: "w' = w \<or> (\<exists>pts. w' = put_stroke (tcd_gps tcd) (gps\<lparr>gps_points := pts\<rparr>) w)"
    by (auto simp: gpencil_set_alpha_last_segment_def bind_fault_Inr get_stroke_Inr Let_def
        split: if_splits)
  from assms(1) g have "editcurve gps = Some (tcd_gpc tcd)" by (rule tool_inv_stroke_editcurve)
  with r assms(1) show ?thesis by (auto simp: tool_inv_put_stroke)
qed

lemma gpencil_set_handle_type_last_point_inv:
  "tool_inv pre sh ch g (tcd_gpc tcd) w \<Longrightarrow>
   gpencil_set_handle_type_last_point tcd ty w = Inr w' \<Longrightarrow>
   tool_inv pre sh ch g (tcd_gpc tcd) w'"
  unfolding gpencil_set_handle_type_last_point_def by (rule update_last_point_inv)

lemma gpencil_push_curve_point_inv:
  assumes "tool_inv pre sh ch (tcd_gps tcd) (tcd_gpc tcd) w"
    and "gpencil_push_curve_point env tcd w = Inr w'"
  shows "tool_inv pre sh ch (tcd_gps tcd) (tcd_gpc tcd) w'"
proof -
  from assms(2) obtain gpc' where
    "stroke_update_geometry_from_editcurve env (tcd_gps tcd) (curve_edit_resolution env)
       (put_curve (tcd_gpc tcd) gpc' w) = Inr w'"
    by (auto simp: gpencil_push_curve_point_def bind_fault_Inr Let_def split: if_splits)
  with assms(1) show ?thesis
    by (blast intro: stroke_update_geometry_from_editcurve_inv tool_inv_put_curve)
qed

lemma gpencil_curve_draw_update_inv:
  assumes "tool_inv pre sh ch (tcd_gps tcd) (tcd_gpc tcd) w"
    and "gpencil_curve_draw_update env tcd w = Inr w'"
  shows "tool_inv pre sh ch (tcd_gps tcd) (tcd_gpc tcd) w'"
proof -
  from assms(2) obtain w1 where
    sw: "(case tcd_state tcd of
          IN_MOVE \<Rightarrow>
            (let co = gpencil_project_mval_to_v3 env (imval tcd)
             in bind_fault
                  (update_last_point
                     (\<lambda>cpt. cpt\<lparr>bezt := (bezt cpt)\<lparr>vec0 := co, vec1 := co, vec2 := co\<rparr>\<rparr>)
                     (tcd_gpc tcd) w) (\<lambda>w1.
                bind_fault (editcurve_recalculate_handles env (tcd_gps tcd) w1) (\<lambda>w2.
                bind_fault (stroke_update_geometry_from_editcurve env (tcd_gps tcd)
                              (resolution tcd) w2) (\<lambda>w3.
                  gpencil_set_alpha_last_segment tcd 0.1 w3))))
        | IN_DRAG_ALIGNED_HANDLE \<Rightarrow>
            (let co = gpencil_project_mval_to_v3 env (imval tcd)
             in bind_fault
                  (update_last_point
                     (\<lambda>cpt. cpt\<lparr>bezt := (bezt cpt)
                               \<lparr>vec0 := add_v3_v3 (sub_v3_v3v3 (vec1 (bezt cpt)) co) (vec1 (bezt cpt)),
                                vec2 := co\<rparr>\<rparr>)
                     (tcd_gpc tcd) w) (\<lambda>w1.
                  stroke_update_geometry_from_editcurve env (tcd_gps tcd) (resolution tcd) w1))
        | IN_DRAG_FREE_HANDLE \<Rightarrow>
            (let co = gpencil_project_mval_to_v3 env (imval tcd)
             in bind_fault
                  (update_last_point (\<lambda>cpt. cpt\<lparr>bezt := (bezt cpt)\<lparr>vec2 := co\<rparr>\<rparr>)
                     (tcd_gpc tcd) w) (\<lambda>w1.
                  stroke_update_geometry_from_editcurve env (tcd_gps tcd) (resolution tcd) w1))
        | IN_SET_THICKNESS \<Rightarrow>
            (let move = (fst (imval tcd) - fst (imval_start tcd),
                         snd (imval tcd) - snd (imval_start tcd));
                 dir = (if fst move > 0 then 1 else - 1 :: int);
                 dist = len_manhattan_v2_int move;
                 dr = real_of_int dir * (real_of_int dist / 10)
             in bind_fault
                  (update_last_point
                     (\<lambda>cpt. cpt\<lparr>cpt_pressure :=
                               (if prev_pressure tcd + dr < 0 then 0 else prev_pressure tcd + dr)\<rparr>)
                     (tcd_gpc tcd) w) (\<lambda>w1.
                  stroke_update_geometry_from_editcurve env (tcd_gps tcd) (resolution tcd) w1))
        | IN_SET_VECTOR \<Rightarrow> Inr w) = Inr w1"
    and fin: "stroke_geometry_update env (tcd_gps tcd) w1 = Inr w'"
    unfolding gpencil_curve_draw_update_def bind_fault_Inr by blast
  have "tool_inv pre sh ch (tcd_gps tcd) (tcd_gpc tcd) w1"
  proof (cases "tcd_state tcd")
    case IN_MOVE
    with sw assms(1) show ?thesis
      apply (clarsimp simp: Let_def bind_fault_Inr)
      apply (drule (1) update_last_point_inv)
      apply (drule (1) editcurve_recalculate_handles_inv)
      apply (drule (1) stroke_update_geometry_from_editcurve_inv)
      apply (erule (1) gpencil_set_alpha_last_segment_inv)
      done
  next
    case IN_SET_VECTOR
    with sw assms(1) show ?thesis by simp
  next
    case IN_DRAG_ALIGNED_HANDLE
    with sw assms(1) show ?thesis
      apply (clarsimp simp: Let_def bind_fault_Inr)
      apply (drule (1) update_last_point_inv)
      apply (erule (1) stroke_update_geometry_from_editcurve_inv)
      done
  next
    case IN_DRAG_FREE_HANDLE
    with sw assms(1) show ?thesis
      apply (clarsimp simp: Let_def bind_fault_Inr)
      apply (drule (1) update_last_point_inv)
      apply (erule (1) stroke_update_geometry_from_editcurve_inv)
      done
  next
    case IN_SET_THICKNESS
    with sw assms(1) show ?thesis
      apply (clarsimp simp: Let_def bind_fault_Inr)
      apply (drule (1) update_last_point_inv)
      apply (erule (1) stroke_update_geometry_from_editcurve_inv)
      done
  qed
  then show ?thesis using fin by (rule stroke_geometry_update_inv)
qed

lemma tool_inv_fresh:
  "tool_inv pre sh ch g c w \<Longrightarrow> g < next_ref w \<and> c < next_ref w"
  by (auto simp: tool_inv_def split: option.splits intro: leI)

lemma gpencil_pop_curve_point_eq:
  assumes inv: "tool_inv pre sh ch (tcd_gps tcd) (tcd_gpc tcd) w"
    and g: "stroke_heap w (tcd_gps tcd) = Some gps"
    and c: "curve_heap w (tcd_gpc tcd) = Some gpc"
    and ne: "curve_points gpc \<noteq> []"
  shows "gpencil_pop_curve_point env tcd w =
     (let n = next_ref w;
          C = \<lparr>curve_points = butlast (curve_points gpc), curve_flag = curve_flag gpc\<rparr>;
          S0 = gps\<lparr>gps_points := [], editcurve := Some (n + 1)\<rparr>;
          S1 = S0\<lparr>gps_points := sample_curve env S0 C (curve_edit_resolution env)\<rparr>;
          S2 = S1\<lparr>gps_geometry := stroke_geometry env S1\<rparr>
      in Inr (tcd\<lparr>tcd_gps := n, tcd_gpc := n + 1\<rparr>,
              w\<lparr>next_ref := n + 2,
                frame_strokes := pre @ [n],
                stroke_heap := (stroke_heap w)(tcd_gps tcd := None, n \<mapsto> S2),
                curve_heap := (curve_heap w)(tcd_gpc tcd := None, n + 1 \<mapsto> C)\<rparr>))"
proof -
  from inv have fr: "tcd_gps tcd < next_ref w" "tcd_gpc tcd < next_ref w"
    using tool_inv_fresh by blast+
  from inv have frame: "frame_strokes w = pre @ [tcd_gps tcd]" "tcd_gps tcd \<notin> set pre"
    by (simp_all add: tool_inv_def)
  from inv g have ec: "editcurve gps = Some (tcd_gpc tcd)" by (rule tool_inv_stroke_editcurve)
  have rm: "remove1 (tcd_gps tcd) (pre @ [tcd_gps tcd]) = pre"
    using frame(2) by (simp add: remove1_append)
  have tw: "(curve_heap w)(Suc (next_ref w) \<mapsto> x, tcd_gpc tcd := None)
          = (curve_heap w)(tcd_gpc tcd := None, Suc (next_ref w) \<mapsto> x)" for x
    using fr by (auto simp: fun_eq_iff)
  show ?thesis
    using g c ec ne fr frame rm
    by (simp add: gpencil_pop_curve_point_def bind_fault_def get_stroke_def get_curve_def
        Let_def stroke_update_geometry_from_editcurve_def put_stroke_def put_curve_def
        free_stroke_def stroke_geometry_update_def butlast_conv_take tw)
qed

lemma gpencil_pop_curve_point_Inr:
  assumes "gpencil_pop_curve_point env tcd w = Inr (tcd', w')"
  shows "\<exists>gps gpc. stroke_heap w (tcd_gps tcd) = Some gps \<and> curve_heap w (tcd_gpc tcd) = Some gpc
           \<and> curve_points gpc \<noteq> []"
  using assms
  by (auto simp: gpencil_pop_curve_point_def bind_fault_Inr get_stroke_Inr get_curve_Inr
      split: if_splits)

lemma gpencil_pop_curve_point_inv:
  assumes inv: "tool_inv pre sh ch (tcd_gps tcd) (tcd_gpc tcd) w"
    and pop: "gpencil_pop_curve_point env tcd w = Inr (tcd', w')"
  shows "tool_inv pre sh ch (tcd_gps tcd') (tcd_gpc tcd') w'
       \<and> customdata w' = customdata w
       \<and> tcd' = tcd\<lparr>tcd_gps := next_ref w, tcd_gpc := next_ref w + 1\<rparr>"
proof -
  from pop obtain gps gpc where g: "stroke_heap w (tcd_gps tcd) = Some gps"
    and c: "curve_heap w (tcd_gpc tcd) = Some gpc" and ne: "curve_points gpc \<noteq> []"
    using gpencil_pop_curve_point_Inr by blast
  from inv have fr: "tcd_gps tcd < next_ref w" "tcd_gpc tcd < next_ref w"
    using tool_inv_fresh by blast+
  from inv have none: "stroke_heap w (next_ref w) = None" "curve_heap w (Suc (next_ref w)) = None"
    by (simp_all add: tool_inv_def)
  have sh: "(stroke_heap w)(tcd_gps tcd := None, next_ref w := None) = (stroke_heap w)(tcd_gps tcd := None)"
    using none by (auto simp: fun_eq_iff)
  have ch: "(curve_heap w)(tcd_gpc tcd := None, Suc (next_ref w) := None) = (curve_heap w)(tcd_gpc tcd := None)"
    using none by (auto simp: fun_eq_iff)
  from pop show ?thesis
    unfolding gpencil_pop_curve_point_eq [OF inv g c ne]
    using inv fr sh ch
    by (auto simp: Let_def tool_inv_def list_all_iff)
qed

lemma tool_inv_put_tcd [simp]: "tool_inv pre sh ch g c (put_tcd x w) = tool_inv pre sh ch g c w"
  by (simp add: tool_inv_def put_tcd_def)

lemma tool_inv_customdata [simp]:
  "tool_inv pre sh ch g c (w\<lparr>customdata := x\<rparr>) = tool_inv pre sh ch g c w"
  by (simp add: tool_inv_def)

lemmas tool_steps =
  update_last_point_inv [rotated]
  editcurve_recalculate_handles_inv [rotated]
  stroke_update_geometry_from_editcurve_inv [rotated]
  stroke_geometry_update_inv [rotated]

lemma update_step:
  "gpencil_curve_draw_update env t w = Inr w' \<Longrightarrow>
   tool_inv pre sh ch (tcd_gps t) (tcd_gpc t) w \<longrightarrow> tool_inv pre sh ch (tcd_gps t) (tcd_gpc t) w'"
  using gpencil_curve_draw_update_inv by blast

lemma handle_step:
  "gpencil_set_handle_type_last_point t ty w = Inr w' \<Longrightarrow>
   tool_inv pre sh ch g (tcd_gpc t) w \<longrightarrow> tool_inv pre sh ch g (tcd_gpc t) w'"
  using gpencil_set_handle_type_last_point_inv by blast

lemma push_step:
  "gpencil_push_curve_point env t w = Inr w' \<Longrightarrow>
   tool_inv pre sh ch (tcd_gps t) (tcd_gpc t) w \<longrightarrow> tool_inv pre sh ch (tcd_gps t) (tcd_gpc t) w'"
  using gpencil_push_curve_point_inv by blast

lemma pop_step:
  "gpencil_pop_curve_point env t w = Inr (t', w') \<Longrightarrow>
   tool_inv pre sh ch (tcd_gps t) (tcd_gpc t) w \<longrightarrow>
   tool_inv pre sh ch (tcd_gps t') (tcd_gpc t') w'"
  using gpencil_pop_curve_point_inv by blast

lemma customdata_put_stroke [simp]: "customdata (put_stroke r x w) = customdata w"
  by (simp add: put_stroke_def)

lemma customdata_put_curve [simp]: "customdata (put_curve r x w) = customdata w"
  by (simp add: put_curve_def)

lemma customdata_put_tcd [simp]: "customdata (put_tcd x w) = Some x"
  by (simp add: put_tcd_def)

lemma modal_map_inv:
  assumes cd: "customdata w = Some tcd0"
    and inv: "tool_inv pre sh ch (tcd_gps tcd0) (tcd_gpc tcd0) w"
    and k: "ev_kind e = EVT_MODAL_MAP val"
    and m: "gpencil_curve_draw_modal env e w = Inr (w', r)"
    and r: "r \<noteq> OPERATOR_FINISHED" "r \<noteq> OPERATOR_CANCELLED"
  shows "\<exists>tcd'. customdata w' = Some tcd' \<and> tool_inv pre sh ch (tcd_gps tcd') (tcd_gpc tcd') w'"
proof -
  from inv obtain gps where g: "stroke_heap w (tcd_gps tcd0) = Some gps"
    and ec: "editcurve gps = Some (tcd_gpc tcd0)"
    using tool_inv_get_stroke [OF inv] by (auto simp: get_stroke_Inr)
  consider (toggle) "val = CD_MODAL_CYCLIC_TOGGLE" | (delete) "val = CD_MODAL_DELETE_LAST"
    | (other) "val \<noteq> CD_MODAL_CYCLIC_TOGGLE" "val \<noteq> CD_MODAL_DELETE_LAST" by blast
  then show ?thesis
  proof cases
    case toggle
    with m cd inv k g ec r show ?thesis
      by (auto simp: gpencil_curve_draw_modal_def get_tcd_def bind_fault_Inr modal_continue_def
          Let_def CD_MODAL_CANCEL_def CD_MODAL_CONFIRM_def CD_MODAL_FREE_HANDLE_ON_def
          CD_MODAL_FREE_HANDLE_OFF_def CD_MODAL_CYCLIC_TOGGLE_def get_stroke_Inr
          tool_inv_put_stroke
          dest!: update_step [where pre=pre and sh=sh and ch=ch])
  next
    case delete
    with m cd inv k r show ?thesis
      by (auto simp: gpencil_curve_draw_modal_def get_tcd_def bind_fault_Inr modal_continue_def
          Let_def CD_MODAL_CANCEL_def CD_MODAL_CONFIRM_def CD_MODAL_FREE_HANDLE_ON_def
          CD_MODAL_FREE_HANDLE_OFF_def CD_MODAL_CYCLIC_TOGGLE_def CD_MODAL_DELETE_LAST_def
          split: if_splits
          dest!: update_step [where pre=pre and sh=sh and ch=ch] pop_step [where pre=pre and sh=sh and ch=ch])
  next
    case other
    with m cd inv k r show ?thesis
      by (auto simp: gpencil_curve_draw_modal_def get_tcd_def bind_fault_Inr modal_continue_def
          Let_def
          split: if_splits
          dest!: update_step [where pre=pre and sh=sh and ch=ch] handle_step [where pre=pre and sh=sh and ch=ch and g="tcd_gps tcd0"])
  qed
qed

lemma modal_pointer_inv:
  assumes cd: "customdata w = Some tcd0"
    and inv: "tool_inv pre sh ch (tcd_gps tcd0) (tcd_gpc tcd0) w"
    and k: "\<forall>val. ev_kind e \<noteq> EVT_MODAL_MAP val"
    and m: "gpencil_curve_draw_modal env e w = Inr (w', r)"
  shows "\<exists>tcd'. customdata w' = Some tcd' \<and> tool_inv pre sh ch (tcd_gps tcd') (tcd_gpc tcd') w'"
proof (cases "ev_kind e")
  case (EVT_MODAL_MAP val)
  with k show ?thesis by simp
next
  case (LEFTMOUSE kv)
  with m cd inv show ?thesis
    by (auto simp: gpencil_curve_draw_modal_def get_tcd_def bind_fault_Inr modal_continue_def
        Let_def split: if_splits
        dest!: update_step [where pre=pre and sh=sh and ch=ch]
               push_step [where pre=pre and sh=sh and ch=ch])
next
  case MOUSEMOVE
  with m cd inv show ?thesis
    by (auto simp: gpencil_curve_draw_modal_def get_tcd_def bind_fault_Inr modal_continue_def
        Let_def split: if_splits
        dest!: update_step [where pre=pre and sh=sh and ch=ch]
               handle_step [where pre=pre and sh=sh and ch=ch and g="tcd_gps tcd0"])
next
  case OTHER_EVENT
  with m cd inv show ?thesis
    by (auto simp: gpencil_curve_draw_modal_def get_tcd_def bind_fault_Inr)
qed

lemma modal_inv:
  assumes "customdata w = Some tcd0"
    and "tool_inv pre sh ch (tcd_gps tcd0) (tcd_gpc tcd0) w"
    and "gpencil_curve_draw_modal env e w = Inr (w', r)"
    and "r \<noteq> OPERATOR_FINISHED" "r \<noteq> OPERATOR_CANCELLED"
  shows "\<exists>tcd'. customdata w' = Some tcd' \<and> tool_inv pre sh ch (tcd_gps tcd') (tcd_gpc tcd') w'"
proof (cases "\<exists>val. ev_kind e = EVT_MODAL_MAP val")
  case True
  then obtain val where k: "ev_kind e = EVT_MODAL_MAP val" ..
  show ?thesis by (rule modal_map_inv [OF assms(1,2) k assms(3,4,5)])
next
  case False
  then have k: "\<forall>val. ev_kind e \<noteq> EVT_MODAL_MAP val" by simp
  show ?thesis by (rule modal_pointer_inv [OF assms(1,2) k assms(3)])
qed

lemma events_inv:
  assumes "customdata w = Some tcd0"
    and "tool_inv pre sh ch (tcd_gps tcd0) (tcd_gpc tcd0) w"
    and "curve_draw_events env es w = Inr (w', OPERATOR_RUNNING_MODAL)"
  shows "\<exists>tcd'. customdata w' = Some tcd' \<and> tool_inv pre sh ch (tcd_gps tcd') (tcd_gpc tcd') w'"
  using assms
proof (induction es arbitrary: w tcd0)
  case Nil
  then show ?case by simp
next
  case (Cons e es)
  from Cons.prems(3) obtain w1 r where
    m: "gpencil_curve_draw_modal env e w = Inr (w1, r)"
    and rest: "(if r = OPERATOR_FINISHED \<or> r = OPERATOR_CANCELLED then Inr (w1, r)
                else curve_draw_events env es w1) = Inr (w', OPERATOR_RUNNING_MODAL)"
    by (auto simp: bind_fault_Inr)
  from rest have r: "r \<noteq> OPERATOR_FINISHED" "r \<noteq> OPERATOR_CANCELLED"
    by (auto split: if_splits)
  with rest have ev: "curve_draw_events env es w1 = Inr (w', OPERATOR_RUNNING_MODAL)" by simp
  from modal_inv [OF Cons.prems(1,2) m r] obtain tcd1 where
    "customdata w1 = Some tcd1" "tool_inv pre sh ch (tcd_gps tcd1) (tcd_gpc tcd1) w1" by blast
  then show ?case using ev by (rule Cons.IH)
qed

lemma init_inv:
  assumes ok: "world_ok w"
    and i: "gpencil_curve_draw_init env event w = Inr w'"
  shows "\<exists>tcd. customdata w' = Some tcd
      \<and> tool_inv (frame_strokes w) (stroke_heap w) (curve_heap w) (tcd_gps tcd) (tcd_gpc tcd) w'"
proof -
  let ?n = "next_ref w"
  from ok have none: "stroke_heap w ?n = None" "curve_heap w (Suc ?n) = None"
    and fr: "\<forall>r \<ge> ?n. stroke_heap w r = None \<and> curve_heap w r = None"
    and pre: "list_all (\<lambda>r. r < ?n) (frame_strokes w)"
    by (simp_all add: world_ok_def)
  from pre have notin: "?n \<notin> set (frame_strokes w)" by (auto simp: list_all_iff)
  from pre have pre2: "list_all (\<lambda>r. r < Suc (Suc ?n)) (frame_strokes w)"
    by (auto simp: list_all_iff)
  have sh: "(stroke_heap w)(?n := None) = stroke_heap w"
    and ch: "(curve_heap w)(Suc ?n := None) = curve_heap w"
    using none by (auto simp: fun_eq_iff)
  have base: "tool_inv (frame_strokes w) (stroke_heap w) (curve_heap w) ?n (Suc ?n)
       (put_curve (Suc ?n) gpc (put_stroke ?n (gps\<lparr>editcurve := Some (Suc ?n)\<rparr>)
          (w\<lparr>next_ref := Suc (Suc ?n), frame_strokes := frame_strokes w @ [?n]\<rparr>)))"
    for gps :: "'a bGPDstroke" and gpc
    using notin pre2 sh ch fr by (simp add: tool_inv_def put_curve_def put_stroke_def)
  from i show ?thesis
    apply (clarsimp simp: gpencil_curve_draw_init_def Let_def bind_fault_Inr)
    apply (drule stroke_geometry_update_inv [rotated])
     apply (rule base)
    apply (drule update_step [where pre="frame_strokes w" and sh="stroke_heap w" and ch="curve_heap w"])
    apply simp
    done
qed

lemma session_running:
  assumes "world_ok w0"
    and "curve_draw_session env event es w0 = Inr (w, OPERATOR_RUNNING_MODAL)"
  shows "\<exists>tcd. customdata w = Some tcd
      \<and> tool_inv (frame_strokes w0) (stroke_heap w0) (curve_heap w0) (tcd_gps tcd) (tcd_gpc tcd) w"
proof -
  from assms(2) obtain w1 where i: "gpencil_curve_draw_init env event w0 = Inr w1"
    and ev: "curve_draw_events env es w1 = Inr (w, OPERATOR_RUNNING_MODAL)"
    by (auto simp: curve_draw_session_def gpencil_curve_draw_invoke_def bind_fault_Inr)
  from init_inv [OF assms(1) i] obtain tcd1 where "customdata w1 = Some tcd1"
    "tool_inv (frame_strokes w0) (stroke_heap w0) (curve_heap w0) (tcd_gps tcd1) (tcd_gpc tcd1) w1"
    by blast
  then show ?thesis using ev by (rule events_inv)
qed

text \<open>
  Claim C3. In any state that the tool reaches after its invocation while it keeps running, the
  CANCEL command succeeds, returns \<^verbatim>\<open>OPERATOR_CANCELLED\<close>, and leaves the stroke list of the frame
  and the allocated strokes and curves exactly as they were before the invocation: the stroke
  of the tool and its edit curve are freed, and the tool data is gone.
\<close>

theorem modal_cancel_restores_frame:
  assumes "world_ok w0"
    and "curve_draw_session env event es w0 = Inr (w, OPERATOR_RUNNING_MODAL)"
    and "ev_kind e = EVT_MODAL_MAP CD_MODAL_CANCEL"
  shows "\<exists>w' tcd. gpencil_curve_draw_modal env e w = Inr (w', OPERATOR_CANCELLED)
       \<and> customdata w = Some tcd
       \<and> frame_strokes w' = frame_strokes w0
       \<and> stroke_heap w' = stroke_heap w0
       \<and> curve_heap w' = curve_heap w0
       \<and> stroke_heap w' (tcd_gps tcd) = None
       \<and> curve_heap w' (tcd_gpc tcd) = None
       \<and> customdata w' = None"
proof -
  from session_running [OF assms(1,2)] obtain tcd where cd: "customdata w = Some tcd"
    and inv: "tool_inv (frame_strokes w0) (stroke_heap w0) (curve_heap w0)
                (tcd_gps tcd) (tcd_gpc tcd) w"
    by blast
  from inv obtain gps where g: "stroke_heap w (tcd_gps tcd) = Some gps"
    and ec: "editcurve gps = Some (tcd_gpc tcd)"
    using tool_inv_get_stroke [OF inv] by (auto simp: get_stroke_Inr)
  from inv have fr: "frame_strokes w = frame_strokes w0 @ [tcd_gps tcd]"
    and notin: "tcd_gps tcd \<notin> set (frame_strokes w0)"
    and sh: "(stroke_heap w)(tcd_gps tcd := None) = stroke_heap w0"
    and ch: "(curve_heap w)(tcd_gpc tcd := None) = curve_heap w0"
    by (simp_all add: tool_inv_def)
  have rm: "remove1 (tcd_gps tcd) (frame_strokes w0 @ [tcd_gps tcd]) = frame_strokes w0"
    using notin by (simp add: remove1_append)
  have s0: "stroke_heap w0 (tcd_gps tcd) = None"
    using fun_cong [OF sh, of "tcd_gps tcd"] by simp
  have c0: "curve_heap w0 (tcd_gpc tcd) = None"
    using fun_cong [OF ch, of "tcd_gpc tcd"] by simp
  have "gpencil_curve_draw_modal env e w =
        Inr (w\<lparr>frame_strokes := frame_strokes w0, stroke_heap := stroke_heap w0,
               curve_heap := curve_heap w0, customdata := None\<rparr>, OPERATOR_CANCELLED)"
    using cd g ec fr rm sh ch assms(3)
    by (simp add: gpencil_curve_draw_modal_def get_tcd_def bind_fault_def Let_def
        CD_MODAL_CANCEL_def CD_MODAL_CONFIRM_def free_stroke_def get_stroke_def
        gpencil_curve_draw_exit_def put_tcd_def)
  with cd s0 c0 show ?thesis by simp
qed

text \<open>
  Claim C10. The cancel callback of the operator, called in a state that the tool reaches
  while it keeps running, frees the tool data only: the stroke of the tool stays the last
  stroke of the frame, still allocated together with its edit curve, and the frame list and
  both heaps are unchanged.
\<close>

theorem operator_cancel_keeps_stroke:
  assumes "world_ok w0"
    and "curve_draw_session env event es w0 = Inr (w, OPERATOR_RUNNING_MODAL)"
  shows "\<exists>w' tcd gps gpc. gpencil_curve_draw_cancel w = Inr w'
       \<and> customdata w = Some tcd
       \<and> customdata w' = None
       \<and> frame_strokes w' = frame_strokes w0 @ [tcd_gps tcd]
       \<and> stroke_heap w' (tcd_gps tcd) = Some gps
       \<and> editcurve gps = Some (tcd_gpc tcd)
       \<and> curve_heap w' (tcd_gpc tcd) = Some gpc
       \<and> frame_strokes w' = frame_strokes w
       \<and> stroke_heap w' = stroke_heap w
       \<and> curve_heap w' = curve_heap w"
proof -
  from session_running [OF assms(1,2)] obtain tcd where cd: "customdata w = Some tcd"
    and inv: "tool_inv (frame_strokes w0) (stroke_heap w0) (curve_heap w0)
                (tcd_gps tcd) (tcd_gpc tcd) w"
    by blast
  from inv obtain gps where g: "stroke_heap w (tcd_gps tcd) = Some gps"
    and ec: "editcurve gps = Some (tcd_gpc tcd)"
    using tool_inv_get_stroke [OF inv] by (auto simp: get_stroke_Inr)
  from inv obtain gpc where c: "curve_heap w (tcd_gpc tcd) = Some gpc"
    using tool_inv_get_curve [OF inv] by (auto simp: get_curve_Inr)
  from inv have fr: "frame_strokes w = frame_strokes w0 @ [tcd_gps tcd]"
    by (simp add: tool_inv_def)
  have "gpencil_curve_draw_cancel w = Inr (w\<lparr>customdata := None\<rparr>)"
    using cd by (simp add: gpencil_curve_draw_cancel_def gpencil_curve_draw_exit_def
        get_tcd_def bind_fault_def)
  with cd g ec c fr show ?thesis by simp
qed

lemmas exec_defs = curve_draw_session_def gpencil_curve_draw_invoke_def gpencil_curve_draw_init_def
      bind_fault_def Let_def stroke_geometry_update_def get_stroke_def
      put_stroke_def put_curve_def gpencil_curve_draw_update_def put_tcd_def
      gpencil_curve_draw_modal_def get_tcd_def get_curve_def modal_continue_def
      gpencil_set_handle_type_last_point_def update_last_point_def
      stroke_update_geometry_from_editcurve_def gpencil_push_curve_point_def
      editcurve_recalculate_handles_def
      gpencil_set_alpha_last_segment_def event_is_press_def
      gpencil_curve_draw_confirm_def gpencil_curve_draw_exit_def
      gpencil_pop_curve_point_def free_stroke_def
      CD_MODAL_CANCEL_def CD_MODAL_CONFIRM_def CD_MODAL_FREE_HANDLE_ON_def
      CD_MODAL_FREE_HANDLE_OFF_def CD_MODAL_CYCLIC_TOGGLE_def CD_MODAL_DELETE_LAST_def

lemma recalculate_handles_points_single:
  "recalculate_handles_points env [cpt] =
     [cpt\<lparr>bezt := (bezt cpt)\<lparr>vec0 := fst (recalculate_handle env [cpt] 0),
                               vec2 := snd (recalculate_handle env [cpt] 0)\<rparr>\<rparr>]"
  by (simp add: recalculate_handles_points_def Let_def)

lemma recalculate_handles_points_pair:
  "recalculate_handles_points env [a, b] =
     [a\<lparr>bezt := (bezt a)\<lparr>vec0 := fst (recalculate_handle env [a, b] 0),
                           vec2 := snd (recalculate_handle env [a, b] 0)\<rparr>\<rparr>,
      b\<lparr>bezt := (bezt b)\<lparr>vec0 := fst (recalculate_handle env [a, b] 1),
                           vec2 := snd (recalculate_handle env [a, b] 1)\<rparr>\<rparr>]"
  by (simp add: recalculate_handles_points_def Let_def upt_rec)

lemma recalculate_handles_points_length [simp]:
  "length (recalculate_handles_points env cps) = length cps"
  by (simp add: recalculate_handles_points_def)


lemma curve_count_put_stroke [simp]: "curve_count c (put_stroke r x w) = curve_count c w"
  by (simp add: curve_count_def put_stroke_def)

lemma curve_count_put_tcd [simp]: "curve_count c (put_tcd x w) = curve_count c w"
  by (simp add: curve_count_def put_tcd_def)

lemma update_last_point_count:
  "update_last_point f c w = Inr w' \<Longrightarrow> curve_count c w' = curve_count c w \<and> 0 < curve_count c w"
  by (auto simp: update_last_point_def bind_fault_Inr get_curve_Inr curve_count_def put_curve_def
      split: if_splits)

lemma editcurve_recalculate_handles_count:
  "editcurve_recalculate_handles env g w = Inr w' \<Longrightarrow> curve_count c w' = curve_count c w"
  by (auto simp: editcurve_recalculate_handles_def bind_fault_Inr get_curve_Inr curve_count_def
      put_curve_def split: option.splits if_splits)

lemma stroke_update_geometry_from_editcurve_count:
  "stroke_update_geometry_from_editcurve env g res w = Inr w' \<Longrightarrow>
   curve_count c w' = curve_count c w"
  by (auto simp: stroke_update_geometry_from_editcurve_def bind_fault_Inr split: option.splits)

lemma stroke_geometry_update_count:
  "stroke_geometry_update env g w = Inr w' \<Longrightarrow> curve_count c w' = curve_count c w"
  by (auto simp: stroke_geometry_update_def bind_fault_Inr)

lemma gpencil_set_alpha_last_segment_count:
  "gpencil_set_alpha_last_segment t alpha w = Inr w' \<Longrightarrow> curve_count c w' = curve_count c w"
  by (auto simp: gpencil_set_alpha_last_segment_def bind_fault_Inr Let_def split: if_splits)

lemma gpencil_set_handle_type_last_point_count:
  "gpencil_set_handle_type_last_point t ty w = Inr w' \<Longrightarrow>
   curve_count (tcd_gpc t) w' = curve_count (tcd_gpc t) w \<and> 0 < curve_count (tcd_gpc t) w"
  unfolding gpencil_set_handle_type_last_point_def by (rule update_last_point_count)

lemma gpencil_push_curve_point_count:
  "gpencil_push_curve_point env t w = Inr w' \<Longrightarrow> 0 < curve_count (tcd_gpc t) w'"
  by (auto simp: gpencil_push_curve_point_def bind_fault_Inr Let_def get_curve_Inr
      curve_count_def put_curve_def
      dest!: stroke_update_geometry_from_editcurve_count [where c="tcd_gpc t"]
      split: if_splits)

lemma gpencil_curve_draw_update_count:
  assumes "gpencil_curve_draw_update env t w = Inr w'"
  shows "curve_count (tcd_gpc t) w' = curve_count (tcd_gpc t) w
       \<and> (tcd_state t \<noteq> IN_SET_VECTOR \<longrightarrow> 0 < curve_count (tcd_gpc t) w)"
  using assms
  by (cases "tcd_state t")
     (auto simp: gpencil_curve_draw_update_def bind_fault_Inr Let_def
      dest!: update_last_point_count editcurve_recalculate_handles_count [where c="tcd_gpc t"]
        stroke_update_geometry_from_editcurve_count [where c="tcd_gpc t"]
        stroke_geometry_update_count [where c="tcd_gpc t"]
        gpencil_set_alpha_last_segment_count [where c="tcd_gpc t"])

lemma gpencil_pop_curve_point_tcd:
  "gpencil_pop_curve_point env t w = Inr (t', w') \<Longrightarrow>
   t' = t\<lparr>tcd_gps := next_ref w, tcd_gpc := next_ref w + 1\<rparr>"
  by (auto simp: gpencil_pop_curve_point_def bind_fault_Inr Let_def split: if_splits)

lemma modal_count:
  assumes cd: "customdata w = Some tcd0"
    and pos: "0 < curve_count (tcd_gpc tcd0) w"
    and m: "gpencil_curve_draw_modal env e w = Inr (w', r)"
    and r: "r \<noteq> OPERATOR_FINISHED" "r \<noteq> OPERATOR_CANCELLED"
  shows "\<exists>tcd'. customdata w' = Some tcd' \<and> 0 < curve_count (tcd_gpc tcd') w'"
proof (cases "ev_kind e")
  case (EVT_MODAL_MAP val)
  consider (delete) "val = CD_MODAL_DELETE_LAST" | (other) "val \<noteq> CD_MODAL_DELETE_LAST" by blast
  then show ?thesis
  proof cases
    case delete
    with m cd pos EVT_MODAL_MAP r show ?thesis
      by (auto simp: gpencil_curve_draw_modal_def get_tcd_def bind_fault_Inr modal_continue_def
          Let_def CD_MODAL_CANCEL_def CD_MODAL_CONFIRM_def CD_MODAL_FREE_HANDLE_ON_def
          CD_MODAL_FREE_HANDLE_OFF_def CD_MODAL_CYCLIC_TOGGLE_def CD_MODAL_DELETE_LAST_def
          split: if_splits
          dest!: gpencil_curve_draw_update_count gpencil_pop_curve_point_tcd)
  next
    case other
    with m cd pos EVT_MODAL_MAP r show ?thesis
      by (auto simp: gpencil_curve_draw_modal_def get_tcd_def bind_fault_Inr modal_continue_def
          Let_def split: if_splits
          dest!: gpencil_curve_draw_update_count gpencil_set_handle_type_last_point_count)
  qed
next
  case (LEFTMOUSE kv)
  with m cd pos show ?thesis
    by (auto simp: gpencil_curve_draw_modal_def get_tcd_def bind_fault_Inr modal_continue_def
        Let_def split: if_splits
        dest!: gpencil_curve_draw_update_count gpencil_push_curve_point_count)
next
  case MOUSEMOVE
  with m cd pos show ?thesis
    by (auto simp: gpencil_curve_draw_modal_def get_tcd_def bind_fault_Inr modal_continue_def
        Let_def split: if_splits
        dest!: gpencil_curve_draw_update_count gpencil_set_handle_type_last_point_count)
next
  case OTHER_EVENT
  with m cd pos show ?thesis
    by (auto simp: gpencil_curve_draw_modal_def get_tcd_def bind_fault_Inr)
qed

lemma events_count:
  assumes "customdata w = Some tcd0"
    and "0 < curve_count (tcd_gpc tcd0) w"
    and "curve_draw_events env es w = Inr (w', OPERATOR_RUNNING_MODAL)"
  shows "\<exists>tcd'. customdata w' = Some tcd' \<and> 0 < curve_count (tcd_gpc tcd') w'"
  using assms
proof (induction es arbitrary: w tcd0)
  case Nil
  then show ?case by simp
next
  case (Cons e es)
  from Cons.prems(3) obtain w1 r where
    m: "gpencil_curve_draw_modal env e w = Inr (w1, r)"
    and rest: "(if r = OPERATOR_FINISHED \<or> r = OPERATOR_CANCELLED then Inr (w1, r)
                else curve_draw_events env es w1) = Inr (w', OPERATOR_RUNNING_MODAL)"
    by (auto simp: bind_fault_Inr)
  from rest have r: "r \<noteq> OPERATOR_FINISHED" "r \<noteq> OPERATOR_CANCELLED"
    by (auto split: if_splits)
  with rest have ev: "curve_draw_events env es w1 = Inr (w', OPERATOR_RUNNING_MODAL)" by simp
  from modal_count [OF Cons.prems(1,2) m r] obtain tcd1 where
    "customdata w1 = Some tcd1" "0 < curve_count (tcd_gpc tcd1) w1" by blast
  then show ?case using ev by (rule Cons.IH)
qed

lemma init_count:
  assumes "gpencil_curve_draw_init env event w = Inr w'"
  shows "\<exists>tcd. customdata w' = Some tcd \<and> 0 < curve_count (tcd_gpc tcd) w'"
  using assms
  apply (clarsimp simp: gpencil_curve_draw_init_def Let_def bind_fault_Inr)
  apply (drule stroke_geometry_update_count [where c="Suc (next_ref w)"])
  apply (drule gpencil_curve_draw_update_count)
  apply (simp add: curve_count_def put_curve_def put_stroke_def)
  done

lemma session_count:
  assumes "curve_draw_session env event es w0 = Inr (w, OPERATOR_RUNNING_MODAL)"
  shows "\<exists>tcd. customdata w = Some tcd \<and> 0 < curve_count (tcd_gpc tcd) w"
proof -
  from assms obtain w1 where i: "gpencil_curve_draw_init env event w0 = Inr w1"
    and ev: "curve_draw_events env es w1 = Inr (w, OPERATOR_RUNNING_MODAL)"
    by (auto simp: curve_draw_session_def gpencil_curve_draw_invoke_def bind_fault_Inr)
  from init_count [OF i] obtain tcd1 where "customdata w1 = Some tcd1"
    "0 < curve_count (tcd_gpc tcd1) w1" by blast
  then show ?thesis using ev by (rule events_count)
qed

lemma anchor_data_recalculate:
  "map anchor_data (recalculate_handles_points env cps) = map anchor_data cps"
  by (rule nth_equalityI) (simp_all add: recalculate_handles_points_def anchor_data_def Let_def)

lemma butlast_recalculate:
  "map anchor_data (butlast (recalculate_handles_points env cps)) = map anchor_data (butlast cps)"
  by (simp add: map_butlast anchor_data_recalculate)

lemma butlast_update_last: "length xs \<le> Suc i \<Longrightarrow> butlast (xs[i := y]) = butlast xs"
  by (auto simp: butlast_list_update intro: list_update_beyond)

text \<open>
  The delete-last command where it works: in a reachable state in MOVE whose curve has at
  least two control points, and in a reachable drag state, it succeeds and leaves the tool in
  MOVE. From MOVE the stroke and curve of the tool are replaced by newly allocated ones, the
  old ones are freed, the new stroke takes the place of the old one at the end of the frame
  list and carries its attributes, the curve has one point fewer, and the points before the
  removed one keep their anchor data. From a drag state the stroke and curve stay the same
  objects, the number of points is unchanged and every point before the last keeps its anchor
  data. With a single control point in MOVE the command fails, see the end of this section.
\<close>

lemma delete_last_command:
  assumes ok: "world_ok w0"
    and run: "curve_draw_session env event es w0 = Inr (w, OPERATOR_RUNNING_MODAL)"
    and cd: "customdata w = Some tcd"
    and c: "curve_heap w (tcd_gpc tcd) = Some gpc"
    and e: "ev_kind e = EVT_MODAL_MAP CD_MODAL_DELETE_LAST"
    and st: "tcd_state tcd = IN_MOVE \<and> 2 \<le> length (curve_points gpc)
           \<or> tcd_state tcd = IN_DRAG_ALIGNED_HANDLE \<or> tcd_state tcd = IN_DRAG_FREE_HANDLE"
  shows "\<exists>w' tcd' gps' gpc'.
           gpencil_curve_draw_modal env e w = Inr (w', OPERATOR_RUNNING_MODAL)
         \<and> customdata w' = Some tcd' \<and> tcd_state tcd' = IN_MOVE
         \<and> last (frame_strokes w) = tcd_gps tcd
         \<and> frame_strokes w' = butlast (frame_strokes w) @ [tcd_gps tcd']
         \<and> stroke_heap w' (tcd_gps tcd') = Some gps' \<and> editcurve gps' = Some (tcd_gpc tcd')
         \<and> curve_heap w' (tcd_gpc tcd') = Some gpc'
         \<and> (if tcd_state tcd = IN_MOVE
             then stroke_heap w (tcd_gps tcd') = None \<and> curve_heap w (tcd_gpc tcd') = None
                \<and> map_option gps_cyclic (stroke_heap w (tcd_gps tcd)) = Some (gps_cyclic gps')
                \<and> map_option gps_thickness (stroke_heap w (tcd_gps tcd))
                    = Some (gps_thickness gps')
                \<and> map_option gps_hardeness (stroke_heap w (tcd_gps tcd))
                    = Some (gps_hardeness gps')
                \<and> map_option gps_aspect_ratio (stroke_heap w (tcd_gps tcd))
                    = Some (gps_aspect_ratio gps')
                \<and> stroke_heap w' (tcd_gps tcd) = None \<and> curve_heap w' (tcd_gpc tcd) = None
                \<and> length (curve_points gpc') + 1 = length (curve_points gpc)
                \<and> map anchor_data (butlast (curve_points gpc'))
                    = map anchor_data (butlast (butlast (curve_points gpc)))
             else tcd_gps tcd' = tcd_gps tcd \<and> tcd_gpc tcd' = tcd_gpc tcd
                \<and> length (curve_points gpc') = length (curve_points gpc)
                \<and> map anchor_data (butlast (curve_points gpc'))
                    = map anchor_data (butlast (curve_points gpc)))"
proof -
  from session_running [OF ok run] cd have
    inv: "tool_inv (frame_strokes w0) (stroke_heap w0) (curve_heap w0) (tcd_gps tcd) (tcd_gpc tcd) w"
    by auto
  from session_count [OF run] cd c have ne: "curve_points gpc \<noteq> []"
    by (auto simp: curve_count_def)
  from inv obtain gps where g: "stroke_heap w (tcd_gps tcd) = Some gps"
    and ec: "editcurve gps = Some (tcd_gpc tcd)"
    using tool_inv_get_stroke [OF inv] by (auto simp: get_stroke_Inr)
  from inv have fr: "frame_strokes w = frame_strokes w0 @ [tcd_gps tcd]"
    and fresh: "stroke_heap w (next_ref w) = None" "curve_heap w (Suc (next_ref w)) = None"
    by (simp_all add: tool_inv_def)
  from inv have lt: "tcd_gps tcd < next_ref w" "tcd_gpc tcd < next_ref w"
    using tool_inv_fresh by blast+
  show ?thesis
  proof (cases "tcd_state tcd = IN_MOVE")
    case True
    with st have two: "2 \<le> length (curve_points gpc)" by auto
    then have bne: "butlast (curve_points gpc) \<noteq> []"
      by (cases "curve_points gpc" rule: rev_cases) auto
    have inv': "tool_inv (frame_strokes w0) (stroke_heap w0) (curve_heap w0)
        (tcd_gps (tcd\<lparr>imval := ev_mval e\<rparr>)) (tcd_gpc (tcd\<lparr>imval := ev_mval e\<rparr>)) w"
      using inv by simp
    note pop = gpencil_pop_curve_point_eq [OF inv', where env=env and gps=gps and gpc=gpc, simplified,
        OF g c ne]
    show ?thesis
      using True cd e g c ec fr fresh lt bne two
      by (auto simp: gpencil_curve_draw_modal_def get_tcd_def pop
          bind_fault_def Let_def stroke_geometry_update_def get_stroke_def
          put_stroke_def put_curve_def gpencil_curve_draw_update_def put_tcd_def
          get_curve_def modal_continue_def update_last_point_def
          stroke_update_geometry_from_editcurve_def editcurve_recalculate_handles_def
          gpencil_set_alpha_last_segment_def
          CD_MODAL_CANCEL_def CD_MODAL_CONFIRM_def CD_MODAL_FREE_HANDLE_ON_def
          CD_MODAL_FREE_HANDLE_OFF_def CD_MODAL_CYCLIC_TOGGLE_def CD_MODAL_DELETE_LAST_def
          butlast_recalculate butlast_update_last)
  next
    case False
    with st have drag: "tcd_state tcd = IN_DRAG_ALIGNED_HANDLE \<or> tcd_state tcd = IN_DRAG_FREE_HANDLE"
      by auto
    show ?thesis
      using False drag cd e g c ec fr ne
      by (auto simp: gpencil_curve_draw_modal_def get_tcd_def
          bind_fault_def Let_def stroke_geometry_update_def get_stroke_def
          put_stroke_def put_curve_def gpencil_curve_draw_update_def put_tcd_def
          get_curve_def modal_continue_def update_last_point_def
          stroke_update_geometry_from_editcurve_def editcurve_recalculate_handles_def
          gpencil_set_alpha_last_segment_def
          CD_MODAL_CANCEL_def CD_MODAL_CONFIRM_def CD_MODAL_FREE_HANDLE_ON_def
          CD_MODAL_FREE_HANDLE_OFF_def CD_MODAL_CYCLIC_TOGGLE_def CD_MODAL_DELETE_LAST_def
          butlast_recalculate butlast_update_last)
  qed
qed

lemma example_drag_far: "real_of_int 3 < len_v2v2_int (150, 100) (0, 0)"
  unfolding len_v2v2_int_def by (rule real_less_rsqrt) simp


lemmas example_defs =
  example_env_def example_world_def example_press_def example_move_def example_release_def
  example_command_def gpencil_project_mval_to_v3_def sub_v3_v3v3_def add_v3_v3_def
  recalculate_handles_points_single recalculate_handles_points_pair

lemma example_world_ok: "world_ok example_world"
  by (simp add: world_ok_def example_world_def)

lemma example_session_move:
  "\<exists>w tcd gpc. curve_draw_session example_env example_press [example_move, example_release]
        example_world = Inr (w, OPERATOR_RUNNING_MODAL)
     \<and> customdata w = Some tcd \<and> tcd_state tcd = IN_MOVE
     \<and> curve_heap w (tcd_gpc tcd) = Some gpc \<and> length (curve_points gpc) = 2
     \<and> frame_strokes w = [0, 1]"
  using example_drag_far by (simp add: exec_defs example_defs)

lemma example_session_drag:
  "\<exists>w tcd gpc. curve_draw_session example_env example_press [example_move]
        example_world = Inr (w, OPERATOR_RUNNING_MODAL)
     \<and> customdata w = Some tcd \<and> tcd_state tcd = IN_DRAG_ALIGNED_HANDLE
     \<and> curve_heap w (tcd_gpc tcd) = Some gpc \<and> length (curve_points gpc) = 1
     \<and> frame_strokes w = [0, 1]"
  using example_drag_far by (simp add: exec_defs example_defs)

theorem modal_cancel_restores_frame_witness:
  "world_ok example_world
   \<and> (\<exists>w w'. curve_draw_session example_env example_press [example_move, example_release]
          example_world = Inr (w, OPERATOR_RUNNING_MODAL)
        \<and> frame_strokes w = [0, 1]
        \<and> gpencil_curve_draw_modal example_env (example_command CD_MODAL_CANCEL) w
            = Inr (w', OPERATOR_CANCELLED)
        \<and> frame_strokes w' = [0] \<and> stroke_heap w' = stroke_heap example_world
        \<and> curve_heap w' = Map.empty \<and> customdata w' = None)"
proof -
  from example_session_move obtain w where
    run: "curve_draw_session example_env example_press [example_move, example_release]
            example_world = Inr (w, OPERATOR_RUNNING_MODAL)"
    and fr: "frame_strokes w = [0, 1]"
    by blast
  have k: "ev_kind (example_command CD_MODAL_CANCEL) = EVT_MODAL_MAP CD_MODAL_CANCEL"
    by (simp add: example_command_def)
  from modal_cancel_restores_frame [OF example_world_ok run k] obtain w' where
    "gpencil_curve_draw_modal example_env (example_command CD_MODAL_CANCEL) w
       = Inr (w', OPERATOR_CANCELLED)"
    "frame_strokes w' = frame_strokes example_world"
    "stroke_heap w' = stroke_heap example_world" "curve_heap w' = curve_heap example_world"
    "customdata w' = None"
    by blast
  with run fr example_world_ok show ?thesis by (auto simp: example_world_def)
qed

theorem operator_cancel_keeps_stroke_witness:
  "world_ok example_world
   \<and> (\<exists>w w'. curve_draw_session example_env example_press [example_move, example_release]
          example_world = Inr (w, OPERATOR_RUNNING_MODAL)
        \<and> gpencil_curve_draw_cancel w = Inr w'
        \<and> frame_strokes w' = [0, 1] \<and> stroke_heap w' 1 \<noteq> None \<and> customdata w' = None)"
proof -
  from example_session_move obtain w where
    run: "curve_draw_session example_env example_press [example_move, example_release]
            example_world = Inr (w, OPERATOR_RUNNING_MODAL)"
    and fr: "frame_strokes w = [0, 1]"
    by blast
  from operator_cancel_keeps_stroke [OF example_world_ok run] fr
  have "\<exists>w'. gpencil_curve_draw_cancel w = Inr w'
        \<and> frame_strokes w' = [0, 1] \<and> stroke_heap w' 1 \<noteq> None \<and> customdata w' = None"
    by (auto simp: example_world_def)
  with run example_world_ok show ?thesis by blast
qed

lemma delete_last_command_example:
  "world_ok example_world
   \<and> (\<exists>w w' tcd'. curve_draw_session example_env example_press [example_move, example_release]
          example_world = Inr (w, OPERATOR_RUNNING_MODAL)
        \<and> gpencil_curve_draw_modal example_env (example_command CD_MODAL_DELETE_LAST) w
            = Inr (w', OPERATOR_RUNNING_MODAL)
        \<and> customdata w' = Some tcd' \<and> tcd_state tcd' = IN_MOVE
        \<and> curve_count (tcd_gpc tcd') w' = 1)
   \<and> (\<exists>w w' tcd'. curve_draw_session example_env example_press [example_move]
          example_world = Inr (w, OPERATOR_RUNNING_MODAL)
        \<and> gpencil_curve_draw_modal example_env (example_command CD_MODAL_DELETE_LAST) w
            = Inr (w', OPERATOR_RUNNING_MODAL)
        \<and> customdata w' = Some tcd' \<and> tcd_state tcd' = IN_MOVE
        \<and> curve_count (tcd_gpc tcd') w' = 1)"
proof -
  have k: "ev_kind (example_command CD_MODAL_DELETE_LAST) = EVT_MODAL_MAP CD_MODAL_DELETE_LAST"
    by (simp add: example_command_def)
  from example_session_move obtain w tcd gpc where
    run: "curve_draw_session example_env example_press [example_move, example_release]
            example_world = Inr (w, OPERATOR_RUNNING_MODAL)"
    and cd: "customdata w = Some tcd" and st: "tcd_state tcd = IN_MOVE"
    and c: "curve_heap w (tcd_gpc tcd) = Some gpc" and len: "length (curve_points gpc) = 2"
    by blast
  from st len have st': "tcd_state tcd = IN_MOVE \<and> 2 \<le> length (curve_points gpc)
      \<or> tcd_state tcd = IN_DRAG_ALIGNED_HANDLE \<or> tcd_state tcd = IN_DRAG_FREE_HANDLE"
    by simp
  from delete_last_command [OF example_world_ok run cd c k st'] st len
  have a: "\<exists>w' tcd'. gpencil_curve_draw_modal example_env (example_command CD_MODAL_DELETE_LAST) w
            = Inr (w', OPERATOR_RUNNING_MODAL)
        \<and> customdata w' = Some tcd' \<and> tcd_state tcd' = IN_MOVE
        \<and> curve_count (tcd_gpc tcd') w' = 1"
    by (auto simp: curve_count_def)
  from example_session_drag obtain w2 tcd2 gpc2 where
    run2: "curve_draw_session example_env example_press [example_move]
            example_world = Inr (w2, OPERATOR_RUNNING_MODAL)"
    and cd2: "customdata w2 = Some tcd2" and st2: "tcd_state tcd2 = IN_DRAG_ALIGNED_HANDLE"
    and c2: "curve_heap w2 (tcd_gpc tcd2) = Some gpc2" and len2: "length (curve_points gpc2) = 1"
    by blast
  from st2 have st2': "tcd_state tcd2 = IN_MOVE \<and> 2 \<le> length (curve_points gpc2)
      \<or> tcd_state tcd2 = IN_DRAG_ALIGNED_HANDLE \<or> tcd_state tcd2 = IN_DRAG_FREE_HANDLE"
    by simp
  from delete_last_command [OF example_world_ok run2 cd2 c2 k st2'] st2 len2
  have b: "\<exists>w' tcd'. gpencil_curve_draw_modal example_env (example_command CD_MODAL_DELETE_LAST) w2
            = Inr (w', OPERATOR_RUNNING_MODAL)
        \<and> customdata w' = Some tcd' \<and> tcd_state tcd' = IN_MOVE
        \<and> curve_count (tcd_gpc tcd') w' = 1"
    by (auto simp: curve_count_def)
  from a b run run2 example_world_ok show ?thesis by blast
qed



text \<open>
  The first drag is measured from the window origin, not from the click: after a click at
  \<open>(10, 0)\<close>, a drag of nine pixels to \<open>(1, 0)\<close> with a threshold of three is not recognised,
  and the single control point keeps its free handles.
\<close>

lemma example_drag_near: "\<not> real_of_int 3 < len_v2v2_int (1, 0) (0, 0)"
  by (simp add: len_v2v2_int_def)

lemma first_drag_measured_from_origin:
  "session_points example_env (example_press\<lparr>ev_mval := (10, 0)\<rparr>)
     [example_move\<lparr>ev_mval := (1, 0)\<rparr>, example_release\<lparr>ev_mval := (1, 0)\<rparr>,
      example_command CD_MODAL_CONFIRM] example_world
   = Some ([\<lparr>bezt = \<lparr>vec0 = (10, 0, 0), vec1 = (10, 0, 0), vec2 = (10, 0, 0),
                      h1 = HD_FREE, h2 = HD_FREE,
                      f1_select = False, f2_select = False, f3_select = False\<rparr>,
             cpt_pressure = 1, cpt_strength = 1, point_index = 0, cpt_select = False\<rparr>],
           OPERATOR_FINISHED)"
  using example_drag_near
  by (simp add: session_points_def persisted_curve_points_def exec_defs example_defs)


section \<open>Topology update entry point\<close>

subsection \<open>Splitting a leaf leaves the other nodes alone\<close>












subsection \<open>Order of the operations and the closing loops\<close>

lemma example_topo_passes:
  "ts_pbvh (topo_passes example_topo_ops {PBVH_Collapse, PBVH_Subdivide, PBVH_Cleanup} ()
      example_pbvh) = example_pbvh\<lparr>bm_max_edge_len := 15\<rparr>"
  "ts_modified (topo_passes example_topo_ops {PBVH_Collapse, PBVH_Subdivide, PBVH_Cleanup} ()
      example_pbvh)"
  by (simp_all add: topo_passes_def collapse_pass_def subdivide_pass_def cleanup_pass_def
        short_edge_queue_create_def long_edge_queue_create_def
        example_topo_ops_def topo_begin_def Let_def example_pbvh_def)





section \<open>Joining small subtrees\<close>

subsection \<open>Set contents and tree shape\<close>

lemma set_foldl_gset_add: "set (foldl gset_add xs ys) = set xs \<union> set ys"
  by (induction ys arbitrary: xs) (auto simp: gset_add_def)

lemma set_other_inner:
  "set (foldl (\<lambda>other vx. if vx \<in> U then other else gset_add other vx) os vs)
     = set os \<union> (set vs - U)"
  by (induction vs arbitrary: os) (auto simp: gset_add_def)

lemma set_other_verts:
  "set (foldl (\<lambda>other f. foldl (\<lambda>other vx. if vx \<in> U then other else gset_add other vx)
                            other (fv f)) os fs)
     = set os \<union> ((\<Union>f \<in> set fs. set (fv f)) - U)"
  by (induction fs arbitrary: os) (auto simp: set_other_inner)

lemma foldl_vert_node_geom:
  "vert_co (foldl (\<lambda>m vx. m\<lparr>vert_node := (vert_node m)(vx := c)\<rparr>) m vs) = vert_co m"
  "face_verts (foldl (\<lambda>m vx. m\<lparr>vert_node := (vert_node m)(vx := c)\<rparr>) m vs) = face_verts m"
  by (induction vs arbitrary: m) simp_all

lemma foldl_face_node_geom:
  "vert_co (foldl (\<lambda>m f. m\<lparr>face_node := (face_node m)(f := c)\<rparr>) m fs) = vert_co m"
  "face_verts (foldl (\<lambda>m f. m\<lparr>face_node := (face_node m)(f := c)\<rparr>) m fs) = face_verts m"
  by (induction fs arbitrary: m) simp_all

lemma root_ix_in_indices: "root_ix S \<in> set (indices S)"
  by (cases S) simp_all

lemma tree_at_root_lt: "tree_at ns S \<Longrightarrow> root_ix S < length ns"
  by (cases S) simp_all

lemma shape_cong:
  assumes "\<forall>j \<in> set (indices S). same_shape (ns' ! j) (ns ! j)" "length ns' = length ns"
  shows "tree_at ns' S = tree_at ns S" "leaf_faces ns' S = leaf_faces ns S"
    "leaf_unique_verts ns' S = leaf_unique_verts ns S" "subtree_faces ns' S = subtree_faces ns S"
  using assms by (induction S) (auto simp: same_shape_def)

lemma same_shape_refl: "same_shape a a"
  by (simp add: same_shape_def)

lemma node_cong:
  assumes "\<forall>j \<in> set (indices S). ns' ! j = ns ! j" "length ns' = length ns"
  shows "tree_at ns' S = tree_at ns S" "leaf_faces ns' S = leaf_faces ns S"
    "leaf_unique_verts ns' S = leaf_unique_verts ns S" "subtree_faces ns' S = subtree_faces ns S"
proof -
  from assms(1) have "\<forall>j \<in> set (indices S). same_shape (ns' ! j) (ns ! j)"
    by (simp add: same_shape_refl)
  from shape_cong [OF this assms(2)]
  show "tree_at ns' S = tree_at ns S" "leaf_faces ns' S = leaf_faces ns S"
    "leaf_unique_verts ns' S = leaf_unique_verts ns S" "subtree_faces ns' S = subtree_faces ns S"
    by simp_all
qed

lemma counts_cong:
  assumes "\<forall>j \<in> set (indices S). ns' ! j = ns ! j" "length ns' = length ns"
  shows "counts_ok ns' S = counts_ok ns S"
  using assms
proof (induction S)
  case (PLeaf i)
  then show ?case by simp
next
  case (PNode i l r)
  have "subtree_faces ns' l = subtree_faces ns l" "subtree_faces ns' r = subtree_faces ns r"
    using PNode.prems by (auto intro!: node_cong(4))
  with PNode show ?case by simp
qed

subsection \<open>The count, the join and the rebuild\<close>

lemma count_subtree_spec:
  assumes "tree_at (nodes p) S" "distinct (indices S)" "depth_of S < fuel"
  shows "\<exists>p'. pbvh_count_subtree_verts fuel p (root_ix S) = Inr (p', subtree_faces (nodes p) S)
     \<and> length (nodes p') = length (nodes p) \<and> leaf_limit p' = leaf_limit p \<and> bm p' = bm p
     \<and> (\<forall>j. same_shape (nodes p' ! j) (nodes p ! j))
     \<and> (\<forall>j. j \<notin> set (indices S) \<longrightarrow> nodes p' ! j = nodes p ! j)
     \<and> counts_ok (nodes p') S"
  using assms
proof (induction S arbitrary: p fuel)
  case (PLeaf i)
  then obtain k where k: "fuel = Suc k" by (cases fuel) auto
  from PLeaf.prems obtain fs where fs: "bm_faces (nodes p ! i) = Some fs" by auto
  with PLeaf.prems show ?case
    by (auto simp: k same_shape_def nth_list_update)
next
  case (PNode i l r)
  then obtain k where k: "fuel = Suc k" by (cases fuel) auto
  from PNode.prems have i: "i < length (nodes p)" "PBVH_Leaf \<notin> flag (nodes p ! i)"
    and co: "children_offset (nodes p ! i) = int (root_ix l)" and rr: "root_ix r = root_ix l + 1"
    and tl: "tree_at (nodes p) l" and tr: "tree_at (nodes p) r"
    and dl: "distinct (indices l)" and dr: "distinct (indices r)"
    and disj: "set (indices l) \<inter> set (indices r) = {}"
    and il: "i \<notin> set (indices l)" and ir: "i \<notin> set (indices r)"
    and hl: "depth_of l < k" and hr: "depth_of r < k"
    by (auto simp: k)
  from PNode.IH(1) [OF tl dl hl] obtain p1 where
    c1: "pbvh_count_subtree_verts k p (root_ix l) = Inr (p1, subtree_faces (nodes p) l)"
    and p1: "length (nodes p1) = length (nodes p)" "leaf_limit p1 = leaf_limit p" "bm p1 = bm p"
      "\<forall>j. same_shape (nodes p1 ! j) (nodes p ! j)"
      "\<forall>j. j \<notin> set (indices l) \<longrightarrow> nodes p1 ! j = nodes p ! j"
      "counts_ok (nodes p1) l"
    by blast
  have same_r: "\<forall>j \<in> set (indices r). nodes p1 ! j = nodes p ! j"
    using p1(5) disj by auto
  have tr1: "tree_at (nodes p1) r"
    using node_cong(1) [OF same_r p1(1)] tr by simp
  have sf_r: "subtree_faces (nodes p1) r = subtree_faces (nodes p) r"
    using node_cong(4) [OF same_r p1(1)] by simp
  from PNode.IH(2) [OF tr1 dr hr] obtain p2 where
    c2: "pbvh_count_subtree_verts k p1 (root_ix r) = Inr (p2, subtree_faces (nodes p1) r)"
    and p2: "length (nodes p2) = length (nodes p1)" "leaf_limit p2 = leaf_limit p1" "bm p2 = bm p1"
      "\<forall>j. same_shape (nodes p2 ! j) (nodes p1 ! j)"
      "\<forall>j. j \<notin> set (indices r) \<longrightarrow> nodes p2 ! j = nodes p1 ! j"
      "counts_ok (nodes p2) r"
    by blast
  define c where "c = subtree_faces (nodes p) l + subtree_faces (nodes p) r"
  define p' where "p' = p2\<lparr>nodes := (nodes p2)[i := (nodes p2 ! i)\<lparr>subtree_tottri := c\<rparr>]\<rparr>"
  have res: "pbvh_count_subtree_verts fuel p (root_ix (PNode i l r)) = Inr (p', c)"
    using i co rr c1 c2 sf_r by (simp add: k Let_def p'_def c_def)
  have len: "length (nodes p') = length (nodes p)" using p1(1) p2(1) by (simp add: p'_def)
  have shape: "\<forall>j. same_shape (nodes p' ! j) (nodes p ! j)"
  proof
    fix j
    have "same_shape (nodes p' ! j) (nodes p2 ! j)"
      using i(1) p1(1) p2(1) by (cases "j = i") (auto simp: p'_def same_shape_def)
    with p1(4) p2(4) show "same_shape (nodes p' ! j) (nodes p ! j)"
      by (auto simp: same_shape_def)
  qed
  have frame: "\<forall>j. j \<notin> set (indices (PNode i l r)) \<longrightarrow> nodes p' ! j = nodes p ! j"
  proof (intro allI impI)
    fix j assume j: "j \<notin> set (indices (PNode i l r))"
    then have "j \<noteq> i" "j \<notin> set (indices r)" "j \<notin> set (indices l)" by auto
    then show "nodes p' ! j = nodes p ! j" using p1(5) p2(5) by (simp add: p'_def)
  qed
  have eq_l: "\<forall>j \<in> set (indices l). nodes p' ! j = nodes p1 ! j"
  proof
    fix j assume j: "j \<in> set (indices l)"
    then have "j \<noteq> i" "j \<notin> set (indices r)" using il disj by auto
    then show "nodes p' ! j = nodes p1 ! j" using p2(5) by (simp add: p'_def)
  qed
  have eq_r: "\<forall>j \<in> set (indices r). nodes p' ! j = nodes p2 ! j"
  proof
    fix j assume j: "j \<in> set (indices r)"
    then have "j \<noteq> i" using ir by auto
    then show "nodes p' ! j = nodes p2 ! j" by (simp add: p'_def)
  qed
  have len1: "length (nodes p') = length (nodes p1)" using p2(1) by (simp add: p'_def)
  have len2: "length (nodes p') = length (nodes p2)" by (simp add: p'_def)
  have ok_l: "counts_ok (nodes p') l"
    using counts_cong [OF eq_l len1] p1(6) by simp
  have ok_r: "counts_ok (nodes p') r"
    using counts_cong [OF eq_r len2] p2(6) by simp
  have sh_l: "\<forall>j \<in> set (indices l). same_shape (nodes p' ! j) (nodes p ! j)"
    and sh_r: "\<forall>j \<in> set (indices r). same_shape (nodes p' ! j) (nodes p ! j)"
    using shape by auto
  have sf: "subtree_faces (nodes p') l = subtree_faces (nodes p) l"
    "subtree_faces (nodes p') r = subtree_faces (nodes p) r"
    using shape_cong(4) [OF sh_l len] shape_cong(4) [OF sh_r len] by simp_all
  have tot: "subtree_tottri (nodes p' ! i) = c"
    using i p1(1) p2(1) by (simp add: p'_def)
  have ok: "counts_ok (nodes p') (PNode i l r)"
    using ok_l ok_r sf tot by (simp add: c_def)
  show ?case
    using res len shape frame ok p1(2,3) p2(2,3)
    by (simp add: c_def p'_def)
qed

lemma join_leaf_spec:
  assumes i: "i < length (nodes p)" and par: "par < length (nodes p)" and ne: "i \<noteq> par"
    and vs: "bm_unique_verts (nodes p ! i) = Some vs" and f0: "bm_faces (nodes p ! i) = Some f0"
    and us: "bm_unique_verts (nodes p ! par) = Some us" and fs: "bm_faces (nodes p ! par) = Some fs"
  shows "\<exists>p'. join_leaf (mark_delete p i par) i par = Inr p'
     \<and> length (nodes p') = length (nodes p) \<and> leaf_limit p' = leaf_limit p
     \<and> vert_co (bm p') = vert_co (bm p) \<and> face_verts (bm p') = face_verts (bm p)
     \<and> (\<forall>j. j \<noteq> i \<longrightarrow> j \<noteq> par \<longrightarrow> nodes p' ! j = nodes p ! j)
     \<and> nodes p' ! i = (nodes p ! i)\<lparr>flag := flag (nodes p ! i) \<union> {PBVH_Delete}\<rparr>
     \<and> nodes p' ! par = (nodes p ! par)\<lparr>bm_unique_verts := Some (foldl gset_add us vs),
                                          bm_faces := Some (foldl gset_add fs f0)\<rparr>"
  using assms
  by (simp add: join_leaf_def mark_delete_def gset_add_all_def Let_def
        foldl_vert_node_geom foldl_face_node_geom nth_list_update)

lemma join_subnodes_spec:
  assumes "tree_at (nodes p) S" "distinct (indices S)" "par \<notin> set (indices S)"
    "par < length (nodes p)"
    "bm_unique_verts (nodes p ! par) = Some us" "bm_faces (nodes p ! par) = Some fs"
    "depth_of S < fuel"
  shows "\<exists>p'. pbvh_bmesh_join_subnodes fuel p (root_ix S) par = Inr p'
     \<and> length (nodes p') = length (nodes p) \<and> leaf_limit p' = leaf_limit p
     \<and> vert_co (bm p') = vert_co (bm p) \<and> face_verts (bm p') = face_verts (bm p)
     \<and> (\<forall>j. j \<notin> set (indices S) \<longrightarrow> j \<noteq> par \<longrightarrow> nodes p' ! j = nodes p ! j)
     \<and> (\<forall>j \<in> set (indices S).
           nodes p' ! j = (nodes p ! j)\<lparr>flag := flag (nodes p ! j) \<union> {PBVH_Delete}\<rparr>)
     \<and> nodes p' ! par =
         (nodes p ! par)\<lparr>bm_unique_verts :=
                            Some (foldl gset_add us (leaf_unique_verts (nodes p) S)),
                          bm_faces := Some (foldl gset_add fs (leaf_faces (nodes p) S))\<rparr>"
  using assms
proof (induction S arbitrary: p fuel us fs)
  case (PLeaf i)
  then obtain k where k: "fuel = Suc k" by (cases fuel) auto
  from PLeaf.prems obtain vs f0 where
    vs: "bm_unique_verts (nodes p ! i) = Some vs" and f0: "bm_faces (nodes p ! i) = Some f0"
    by auto
  from PLeaf.prems have i: "i < length (nodes p)" "PBVH_Leaf \<in> flag (nodes p ! i)" "i \<noteq> par"
    by auto
  from join_leaf_spec [OF i(1) PLeaf.prems(4) i(3) vs f0 PLeaf.prems(5,6)] i vs f0
  show ?case by (simp add: k)
next
  case (PNode i l r)
  then obtain k where k: "fuel = Suc k" by (cases fuel) auto
  from PNode.prems have i: "i < length (nodes p)" "PBVH_Leaf \<notin> flag (nodes p ! i)"
    and co: "children_offset (nodes p ! i) = int (root_ix l)" and rr: "root_ix r = root_ix l + 1"
    and pos: "0 < root_ix l"
    and tl: "tree_at (nodes p) l" and tr: "tree_at (nodes p) r"
    and dl: "distinct (indices l)" and dr: "distinct (indices r)"
    and disj: "set (indices l) \<inter> set (indices r) = {}"
    and il: "i \<notin> set (indices l)" and ir: "i \<notin> set (indices r)"
    and pl: "par \<notin> set (indices l)" and pr: "par \<notin> set (indices r)" and pi: "par \<noteq> i"
    and hl: "depth_of l < k" and hr: "depth_of r < k"
    by (auto simp: k)
  note par = PNode.prems(4)
  from PNode.IH(1) [OF tl dl pl par PNode.prems(5,6) hl] obtain p1 where
    j1: "pbvh_bmesh_join_subnodes k p (root_ix l) par = Inr p1"
    and p1: "length (nodes p1) = length (nodes p)" "leaf_limit p1 = leaf_limit p"
      "vert_co (bm p1) = vert_co (bm p)" "face_verts (bm p1) = face_verts (bm p)"
      "\<forall>j. j \<notin> set (indices l) \<longrightarrow> j \<noteq> par \<longrightarrow> nodes p1 ! j = nodes p ! j"
      "\<forall>j \<in> set (indices l).
           nodes p1 ! j = (nodes p ! j)\<lparr>flag := flag (nodes p ! j) \<union> {PBVH_Delete}\<rparr>"
      "nodes p1 ! par =
         (nodes p ! par)\<lparr>bm_unique_verts :=
                            Some (foldl gset_add us (leaf_unique_verts (nodes p) l)),
                          bm_faces := Some (foldl gset_add fs (leaf_faces (nodes p) l))\<rparr>"
    by blast
  have same_r: "\<forall>j \<in> set (indices r). nodes p1 ! j = nodes p ! j"
    using p1(5) disj pr by auto
  have tr1: "tree_at (nodes p1) r"
    using node_cong(1) [OF same_r p1(1)] tr by simp
  have lf_r: "leaf_faces (nodes p1) r = leaf_faces (nodes p) r"
    "leaf_unique_verts (nodes p1) r = leaf_unique_verts (nodes p) r"
    using node_cong(2,3) [OF same_r p1(1)] by simp_all
  have par1: "par < length (nodes p1)" using par p1(1) by simp
  have us1: "bm_unique_verts (nodes p1 ! par)
               = Some (foldl gset_add us (leaf_unique_verts (nodes p) l))"
    and fs1: "bm_faces (nodes p1 ! par) = Some (foldl gset_add fs (leaf_faces (nodes p) l))"
    using p1(7) by simp_all
  from PNode.IH(2) [OF tr1 dr pr par1 us1 fs1 hr] obtain p2 where
    j2: "pbvh_bmesh_join_subnodes k p1 (root_ix r) par = Inr p2"
    and p2: "length (nodes p2) = length (nodes p1)" "leaf_limit p2 = leaf_limit p1"
      "vert_co (bm p2) = vert_co (bm p1)" "face_verts (bm p2) = face_verts (bm p1)"
      "\<forall>j. j \<notin> set (indices r) \<longrightarrow> j \<noteq> par \<longrightarrow> nodes p2 ! j = nodes p1 ! j"
      "\<forall>j \<in> set (indices r).
           nodes p2 ! j = (nodes p1 ! j)\<lparr>flag := flag (nodes p1 ! j) \<union> {PBVH_Delete}\<rparr>"
      "nodes p2 ! par =
         (nodes p1 ! par)\<lparr>bm_unique_verts :=
            Some (foldl gset_add (foldl gset_add us (leaf_unique_verts (nodes p) l))
                    (leaf_unique_verts (nodes p1) r)),
          bm_faces := Some (foldl gset_add (foldl gset_add fs (leaf_faces (nodes p) l))
                              (leaf_faces (nodes p1) r))\<rparr>"
    by blast
  define p' where "p' = mark_delete p2 i par"
  have rlt: "root_ix r < length (nodes p)" using tree_at_root_lt [OF tr] .
  have res: "pbvh_bmesh_join_subnodes fuel p (root_ix (PNode i l r)) par = Inr p'"
    using i co rr pos rlt j1 j2 by (simp add: k Let_def p'_def)
  have ni2: "nodes p2 ! i = nodes p ! i"
    using p1(5) p2(5) il ir pi by simp
  have n': "nodes p' = (nodes p2)[i := (nodes p ! i)\<lparr>flag := flag (nodes p ! i) \<union> {PBVH_Delete}\<rparr>]"
    using pi ni2 by (simp add: p'_def mark_delete_def)
  have i2: "i < length (nodes p2)" using i p1(1) p2(1) by simp
  have a: "length (nodes p') = length (nodes p)" using p1(1) p2(1) by (simp add: n')
  have b: "leaf_limit p' = leaf_limit p" "vert_co (bm p') = vert_co (bm p)"
    "face_verts (bm p') = face_verts (bm p)"
    using p1(2,3,4) p2(2,3,4) by (simp_all add: p'_def mark_delete_def)
  have c: "\<forall>j. j \<notin> set (indices (PNode i l r)) \<longrightarrow> j \<noteq> par \<longrightarrow> nodes p' ! j = nodes p ! j"
  proof (intro allI impI)
    fix j assume "j \<notin> set (indices (PNode i l r))" "j \<noteq> par"
    then have "j \<noteq> i" "j \<notin> set (indices r)" "j \<notin> set (indices l)" "j \<noteq> par" by auto
    then show "nodes p' ! j = nodes p ! j" using p1(5) p2(5) by (simp add: n')
  qed
  have d: "\<forall>j \<in> set (indices (PNode i l r)).
           nodes p' ! j = (nodes p ! j)\<lparr>flag := flag (nodes p ! j) \<union> {PBVH_Delete}\<rparr>"
  proof
    fix j assume j: "j \<in> set (indices (PNode i l r))"
    then consider "j = i" | "j \<in> set (indices l)" | "j \<in> set (indices r)" by auto
    then show "nodes p' ! j = (nodes p ! j)\<lparr>flag := flag (nodes p ! j) \<union> {PBVH_Delete}\<rparr>"
    proof cases
      case 1
      then show ?thesis using i2 by (simp add: n')
    next
      case 2
      then have "j \<noteq> i" "j \<notin> set (indices r)" "j \<noteq> par" using il disj pl by auto
      then show ?thesis using 2 p1(6) p2(5) by (simp add: n')
    next
      case 3
      then have "j \<noteq> i" "j \<notin> set (indices l)" "j \<noteq> par" using ir disj pr by auto
      then show ?thesis using 3 p1(5) p2(6) by (simp add: n')
    qed
  qed
  have e: "nodes p' ! par =
         (nodes p ! par)\<lparr>bm_unique_verts :=
                            Some (foldl gset_add us (leaf_unique_verts (nodes p) (PNode i l r))),
                          bm_faces := Some (foldl gset_add fs (leaf_faces (nodes p) (PNode i l r)))\<rparr>"
    using pi p2(7) p1(7) lf_r by (simp add: n')
  from res a b c d e show ?case by blast
qed

lemma merged_leaf_cong:
  assumes "\<forall>j \<in> set (indices S). same_shape (nodes q ! j) (nodes p ! j)"
    "length (nodes q) = length (nodes p)"
    "vert_co (bm q) = vert_co (bm p)" "face_verts (bm q) = face_verts (bm p)"
    "\<forall>j \<in> set (indices S). nodes q' ! j = nodes p' ! j"
  shows "merged_leaf env q q' S = merged_leaf env p p' S"
proof -
  have r: "nodes q' ! root_ix S = nodes p' ! root_ix S"
    using assms(5) root_ix_in_indices by blast
  have d: "flag (nodes q ! root_ix S) = flag (nodes p ! root_ix S)"
    using assms(1) root_ix_in_indices [of S] by (auto simp: same_shape_def)
  have b: "list_all (\<lambda>j. PBVH_Delete \<in> flag (nodes q' ! j)) (below S)
         = list_all (\<lambda>j. PBVH_Delete \<in> flag (nodes p' ! j)) (below S)"
    using assms(5) by (cases S) (auto simp: list_all_iff)
  show ?thesis
    unfolding merged_leaf_def Let_def r d b shape_cong(2,3) [OF assms(1,2)] assms(3,4) ..
qed

lemma corrected_cong:
  assumes "\<forall>j \<in> set (indices S). same_shape (nodes q ! j) (nodes p ! j)"
    "length (nodes q) = length (nodes p)" "leaf_limit q = leaf_limit p"
    "vert_co (bm q) = vert_co (bm p)" "face_verts (bm q) = face_verts (bm p)"
    "\<forall>j \<in> set (indices S). nodes q' ! j = nodes p' ! j"
  shows "corrected env q q' S = corrected env p p' S"
  using assms
proof (induction S)
  case (PLeaf i)
  then show ?case by simp
next
  case (PNode i l r)
  have l: "corrected env q q' l = corrected env p p' l"
    using PNode.prems by (intro PNode.IH(1)) auto
  have r: "corrected env q q' r = corrected env p p' r"
    using PNode.prems by (intro PNode.IH(2)) auto
  have m: "merged_leaf env q q' (PNode i l r) = merged_leaf env p p' (PNode i l r)"
    using PNode.prems by (intro merged_leaf_cong) auto
  have sf: "subtree_faces (nodes q) (PNode i l r) = subtree_faces (nodes p) (PNode i l r)"
    using shape_cong(4) [OF PNode.prems(1,2)] .
  show ?case
    unfolding corrected.simps sf l r m PNode.prems(3) ..
qed

lemma corect_tree_rebuild_spec:
  assumes "i < length (nodes p)" "bm_faces (nodes p ! i) = Some fs"
    "bm_unique_verts (nodes p ! i) = Some us"
  shows "\<exists>p' os. corect_tree_rebuild env p i = Inr p'
     \<and> length (nodes p') = length (nodes p) \<and> leaf_limit p' = leaf_limit p
     \<and> vert_co (bm p') = vert_co (bm p) \<and> face_verts (bm p') = face_verts (bm p)
     \<and> (\<forall>j. j \<noteq> i \<longrightarrow> nodes p' ! j = nodes p ! j)
     \<and> set os = (\<Union>f \<in> set fs. set (face_verts (bm p) f)) - set us
     \<and> nodes p' ! i =
         (nodes p ! i)\<lparr>children_offset := 0,
            flag := flag (nodes p ! i) \<union>
                         {PBVH_Leaf, PBVH_UpdateRedraw, PBVH_UpdateBB, PBVH_UpdateDrawBuffers,
                          PBVH_RebuildDrawBuffers, PBVH_UpdateOriginalBB, PBVH_UpdateMask,
                          PBVH_UpdateVisibility, PBVH_UpdateColor, PBVH_UpdateTopology,
                          PBVH_UpdateNormals, PBVH_UpdateTris},
            draw_buffers := None, bm_other_verts := Some os,
            vb := foldl (\<lambda>b vx. BB_expand env b (vert_co (bm p) vx)) (BB_reset env) (us @ os),
            orig_vb := foldl (\<lambda>b vx. BB_expand env b (vert_co (bm p) vx)) (BB_reset env)
                         (us @ os)\<rparr>"
proof -
  define os where "os = foldl (\<lambda>other f.
                                foldl (\<lambda>other vx. if vx \<in> set us then other else gset_add other vx)
                                  other (face_verts (bm p) f)) [] fs"
  have os: "set os = (\<Union>f \<in> set fs. set (face_verts (bm p) f)) - set us"
    unfolding os_def set_other_verts by simp
  from assms os show ?thesis
    apply (simp add: corect_tree_rebuild_def Let_def foldl_face_node_geom os_def [symmetric])
    apply (rule exI [of _ os])
    apply simp
    done
qed

subsection \<open>The pass over the tree\<close>

lemma size_lower_half:
  "(c < (L::int) - L div 2) = (2 * c < L)"
  by presburger

lemma corect_tree_merge:
  assumes t: "tree_at (nodes p) (PNode i l r)" and d: "distinct (indices (PNode i l r))"
    and h: "depth_of l < k" "depth_of r < k"
  defines "p0 \<equiv> p\<lparr>nodes := (nodes p)
                     [i := (nodes p ! i)\<lparr>bm_unique_verts := Some [], bm_other_verts := Some [],
                                         bm_faces := Some []\<rparr>]\<rparr>"
  shows "\<exists>p1 p2 p'. pbvh_bmesh_join_subnodes k p0 (root_ix l) i = Inr p1
     \<and> children_offset (nodes p1 ! i) = int (root_ix l)
     \<and> pbvh_bmesh_join_subnodes k p1 (root_ix r) i = Inr p2
     \<and> corect_tree_rebuild env p2 i = Inr p'
     \<and> length (nodes p') = length (nodes p) \<and> leaf_limit p' = leaf_limit p
     \<and> vert_co (bm p') = vert_co (bm p) \<and> face_verts (bm p') = face_verts (bm p)
     \<and> (\<forall>j. j \<notin> set (indices (PNode i l r)) \<longrightarrow> nodes p' ! j = nodes p ! j)
     \<and> merged_leaf env p p' (PNode i l r)"
proof -
  from t d have i: "i < length (nodes p)" "PBVH_Leaf \<notin> flag (nodes p ! i)"
    and co: "children_offset (nodes p ! i) = int (root_ix l)" and rr: "root_ix r = root_ix l + 1"
    and tl: "tree_at (nodes p) l" and tr: "tree_at (nodes p) r"
    and dl: "distinct (indices l)" and dr: "distinct (indices r)"
    and disj: "set (indices l) \<inter> set (indices r) = {}"
    and il: "i \<notin> set (indices l)" and ir: "i \<notin> set (indices r)"
    by auto
  have len0: "length (nodes p0) = length (nodes p)" by (simp add: p0_def)
  have same0: "\<forall>j. j \<noteq> i \<longrightarrow> nodes p0 ! j = nodes p ! j" by (simp add: p0_def)
  have n0: "nodes p0 ! i = (nodes p ! i)\<lparr>bm_unique_verts := Some [], bm_other_verts := Some [],
                                         bm_faces := Some []\<rparr>"
    using i by (simp add: p0_def)
  have same0l: "\<forall>j \<in> set (indices l). nodes p0 ! j = nodes p ! j"
  proof
    fix j assume "j \<in> set (indices l)"
    then have "j \<noteq> i" using il by auto
    then show "nodes p0 ! j = nodes p ! j" using same0 by simp
  qed
  have tl0: "tree_at (nodes p0) l" using node_cong(1) [OF same0l len0] tl by simp
  have lf0: "leaf_faces (nodes p0) l = leaf_faces (nodes p) l"
    "leaf_unique_verts (nodes p0) l = leaf_unique_verts (nodes p) l"
    using node_cong(2,3) [OF same0l len0] by simp_all
  have i0: "i < length (nodes p0)" using i len0 by simp
  have u0: "bm_unique_verts (nodes p0 ! i) = Some []" "bm_faces (nodes p0 ! i) = Some []"
    using n0 by simp_all
  from join_subnodes_spec [OF tl0 dl il i0 u0 h(1)] obtain p1 where
    j1: "pbvh_bmesh_join_subnodes k p0 (root_ix l) i = Inr p1"
    and p1: "length (nodes p1) = length (nodes p0)" "leaf_limit p1 = leaf_limit p0"
      "vert_co (bm p1) = vert_co (bm p0)" "face_verts (bm p1) = face_verts (bm p0)"
      "\<forall>j. j \<notin> set (indices l) \<longrightarrow> j \<noteq> i \<longrightarrow> nodes p1 ! j = nodes p0 ! j"
      "\<forall>j \<in> set (indices l).
           nodes p1 ! j = (nodes p0 ! j)\<lparr>flag := flag (nodes p0 ! j) \<union> {PBVH_Delete}\<rparr>"
      "nodes p1 ! i =
         (nodes p0 ! i)\<lparr>bm_unique_verts :=
                            Some (foldl gset_add [] (leaf_unique_verts (nodes p0) l)),
                          bm_faces := Some (foldl gset_add [] (leaf_faces (nodes p0) l))\<rparr>"
    by blast
  have co1: "children_offset (nodes p1 ! i) = int (root_ix l)"
    using p1(7) n0 co by simp
  have same1r: "\<forall>j \<in> set (indices r). nodes p1 ! j = nodes p ! j"
  proof
    fix j assume "j \<in> set (indices r)"
    then have "j \<notin> set (indices l)" "j \<noteq> i" using disj ir by auto
    then show "nodes p1 ! j = nodes p ! j" using p1(5) same0 by simp
  qed
  have len1: "length (nodes p1) = length (nodes p)" using p1(1) len0 by simp
  have tr1: "tree_at (nodes p1) r" using node_cong(1) [OF same1r len1] tr by simp
  have lf1: "leaf_faces (nodes p1) r = leaf_faces (nodes p) r"
    "leaf_unique_verts (nodes p1) r = leaf_unique_verts (nodes p) r"
    using node_cong(2,3) [OF same1r len1] by simp_all
  have i1: "i < length (nodes p1)" using i len1 by simp
  have u1: "bm_unique_verts (nodes p1 ! i)
              = Some (foldl gset_add [] (leaf_unique_verts (nodes p) l))"
    "bm_faces (nodes p1 ! i) = Some (foldl gset_add [] (leaf_faces (nodes p) l))"
    using p1(7) lf0 by simp_all
  from join_subnodes_spec [OF tr1 dr ir i1 u1 h(2)] obtain p2 where
    j2: "pbvh_bmesh_join_subnodes k p1 (root_ix r) i = Inr p2"
    and p2: "length (nodes p2) = length (nodes p1)" "leaf_limit p2 = leaf_limit p1"
      "vert_co (bm p2) = vert_co (bm p1)" "face_verts (bm p2) = face_verts (bm p1)"
      "\<forall>j. j \<notin> set (indices r) \<longrightarrow> j \<noteq> i \<longrightarrow> nodes p2 ! j = nodes p1 ! j"
      "\<forall>j \<in> set (indices r).
           nodes p2 ! j = (nodes p1 ! j)\<lparr>flag := flag (nodes p1 ! j) \<union> {PBVH_Delete}\<rparr>"
      "nodes p2 ! i =
         (nodes p1 ! i)\<lparr>bm_unique_verts :=
            Some (foldl gset_add (foldl gset_add [] (leaf_unique_verts (nodes p) l))
                    (leaf_unique_verts (nodes p1) r)),
          bm_faces := Some (foldl gset_add (foldl gset_add [] (leaf_faces (nodes p) l))
                              (leaf_faces (nodes p1) r))\<rparr>"
    by blast
  define us where "us = foldl gset_add [] (leaf_unique_verts (nodes p) (PNode i l r))"
  define fs where "fs = foldl gset_add [] (leaf_faces (nodes p) (PNode i l r))"
  have n2: "nodes p2 ! i = (nodes p ! i)\<lparr>bm_unique_verts := Some us, bm_other_verts := Some [],
                                         bm_faces := Some fs\<rparr>"
    using p2(7) p1(7) n0 lf1 by (simp add: us_def fs_def)
  have len2: "length (nodes p2) = length (nodes p)" using p2(1) len1 by simp
  have i2: "i < length (nodes p2)" using i len2 by simp
  have f2: "bm_faces (nodes p2 ! i) = Some fs" "bm_unique_verts (nodes p2 ! i) = Some us"
    using n2 by simp_all
  have geom2: "vert_co (bm p2) = vert_co (bm p)" "face_verts (bm p2) = face_verts (bm p)"
    "leaf_limit p2 = leaf_limit p"
    using p1(2,3,4) p2(2,3,4) by (simp_all add: p0_def)
  from corect_tree_rebuild_spec [OF i2 f2, of env] obtain p' os where
    rb: "corect_tree_rebuild env p2 i = Inr p'"
    and p': "length (nodes p') = length (nodes p2)" "leaf_limit p' = leaf_limit p2"
      "vert_co (bm p') = vert_co (bm p2)" "face_verts (bm p') = face_verts (bm p2)"
      "\<forall>j. j \<noteq> i \<longrightarrow> nodes p' ! j = nodes p2 ! j"
      "set os = (\<Union>f \<in> set fs. set (face_verts (bm p2) f)) - set us"
    and n': "nodes p' ! i =
         (nodes p2 ! i)\<lparr>children_offset := 0,
            flag := flag (nodes p2 ! i) \<union>
                         {PBVH_Leaf, PBVH_UpdateRedraw, PBVH_UpdateBB, PBVH_UpdateDrawBuffers,
                          PBVH_RebuildDrawBuffers, PBVH_UpdateOriginalBB, PBVH_UpdateMask,
                          PBVH_UpdateVisibility, PBVH_UpdateColor, PBVH_UpdateTopology,
                          PBVH_UpdateNormals, PBVH_UpdateTris},
            draw_buffers := None, bm_other_verts := Some os,
            vb := foldl (\<lambda>b vx. BB_expand env b (vert_co (bm p2) vx)) (BB_reset env) (us @ os),
            orig_vb := foldl (\<lambda>b vx. BB_expand env b (vert_co (bm p2) vx)) (BB_reset env)
                         (us @ os)\<rparr>"
    by blast
  have frame: "\<forall>j. j \<notin> set (indices (PNode i l r)) \<longrightarrow> nodes p' ! j = nodes p ! j"
  proof (intro allI impI)
    fix j assume "j \<notin> set (indices (PNode i l r))"
    then have "j \<noteq> i" "j \<notin> set (indices l)" "j \<notin> set (indices r)" by auto
    then show "nodes p' ! j = nodes p ! j"
      using p'(5) p2(5) p1(5) same0 by simp
  qed
  have del: "list_all (\<lambda>j. PBVH_Delete \<in> flag (nodes p' ! j)) (below (PNode i l r))"
    unfolding list_all_iff
  proof
    fix j assume "j \<in> set (below (PNode i l r))"
    then consider "j \<in> set (indices l)" | "j \<in> set (indices r)" by auto
    then show "PBVH_Delete \<in> flag (nodes p' ! j)"
    proof cases
      case 1
      then have "j \<noteq> i" "j \<notin> set (indices r)" using il disj by auto
      then show ?thesis using 1 p'(5) p2(5) p1(6) by simp
    next
      case 2
      then have "j \<noteq> i" using ir by auto
      then show ?thesis using 2 p'(5) p2(6) by simp
    qed
  qed
  have sets: "set fs = set (leaf_faces (nodes p) (PNode i l r))"
    "set us = set (leaf_unique_verts (nodes p) (PNode i l r))"
    by (simp_all add: fs_def us_def set_foldl_gset_add)
  have ml: "merged_leaf env p p' (PNode i l r)"
    unfolding merged_leaf_def Let_def
    using del sets p'(6) geom2
    by (simp add: n' n2)
  from j1 co1 j2 rb p'(1,2,3,4) len2 geom2 frame ml show ?thesis by simp
qed

lemma corect_tree_spec:
  assumes "tree_at (nodes p) S" "distinct (indices S)" "counts_ok (nodes p) S" "depth_of S < fuel"
  shows "\<exists>p'. BKE_pbvh_bmesh_corect_tree env fuel p (root_ix S) par = Inr p'
     \<and> length (nodes p') = length (nodes p) \<and> leaf_limit p' = leaf_limit p
     \<and> vert_co (bm p') = vert_co (bm p) \<and> face_verts (bm p') = face_verts (bm p)
     \<and> (\<forall>j. j \<notin> set (indices S) \<longrightarrow> nodes p' ! j = nodes p ! j)
     \<and> (\<not> (is_internal S \<and> 2 * subtree_faces (nodes p) S < leaf_limit p \<and> root_ix S \<noteq> 0)
          \<longrightarrow> nodes p' ! root_ix S = nodes p ! root_ix S)
     \<and> corrected env p p' S"
  using assms
proof (induction S arbitrary: p fuel par)
  case (PLeaf i)
  then obtain k where k: "fuel = Suc k" by (cases fuel) auto
  from PLeaf.prems show ?case by (simp add: k)
next
  case (PNode i l r)
  then obtain k where k: "fuel = Suc k" by (cases fuel) auto
  from PNode.prems have i: "i < length (nodes p)" "PBVH_Leaf \<notin> flag (nodes p ! i)"
    and co: "children_offset (nodes p ! i) = int (root_ix l)" and rr: "root_ix r = root_ix l + 1"
    and tl: "tree_at (nodes p) l" and tr: "tree_at (nodes p) r"
    and dl: "distinct (indices l)" and dr: "distinct (indices r)"
    and disj: "set (indices l) \<inter> set (indices r) = {}"
    and il: "i \<notin> set (indices l)" and ir: "i \<notin> set (indices r)"
    and cl: "counts_ok (nodes p) l" and cr: "counts_ok (nodes p) r"
    and tot: "subtree_tottri (nodes p ! i) = subtree_faces (nodes p) (PNode i l r)"
    and hl: "depth_of l < k" and hr: "depth_of r < k"
    by (auto simp: k)
  show ?case
  proof (cases "2 * subtree_faces (nodes p) (PNode i l r) < leaf_limit p \<and> i \<noteq> 0")
    case True
    from corect_tree_merge [OF PNode.prems(1,2) hl hr, of env] obtain p1 p2 p' where
      m: "pbvh_bmesh_join_subnodes k
            (p\<lparr>nodes := (nodes p)
                     [i := (nodes p ! i)\<lparr>bm_unique_verts := Some [], bm_other_verts := Some [],
                                         bm_faces := Some []\<rparr>]\<rparr>) (root_ix l) i = Inr p1"
      "children_offset (nodes p1 ! i) = int (root_ix l)"
      "pbvh_bmesh_join_subnodes k p1 (root_ix r) i = Inr p2"
      "corect_tree_rebuild env p2 i = Inr p'"
      and r: "length (nodes p') = length (nodes p)" "leaf_limit p' = leaf_limit p"
      "vert_co (bm p') = vert_co (bm p)" "face_verts (bm p') = face_verts (bm p)"
      "\<forall>j. j \<notin> set (indices (PNode i l r)) \<longrightarrow> nodes p' ! j = nodes p ! j"
      "merged_leaf env p p' (PNode i l r)"
      by blast
    have small: "subtree_tottri (nodes p ! i) < leaf_limit p - leaf_limit p div 2"
      using True tot by (simp add: size_lower_half)
    have res: "BKE_pbvh_bmesh_corect_tree env fuel p (root_ix (PNode i l r)) par = Inr p'"
      using i co rr small True m
      by (simp add: k Let_def nat_add_distrib)
    from res r True show ?thesis by simp
  next
    case False
    have nsmall: "\<not> (subtree_tottri (nodes p ! i) < leaf_limit p - leaf_limit p div 2 \<and> i \<noteq> 0)"
      using False tot by (simp add: size_lower_half)
    from PNode.IH(1) [OF tl dl cl hl, of "Some i"] obtain p1 where
      c1: "BKE_pbvh_bmesh_corect_tree env k p (root_ix l) (Some i) = Inr p1"
      and p1: "length (nodes p1) = length (nodes p)" "leaf_limit p1 = leaf_limit p"
        "vert_co (bm p1) = vert_co (bm p)" "face_verts (bm p1) = face_verts (bm p)"
        "\<forall>j. j \<notin> set (indices l) \<longrightarrow> nodes p1 ! j = nodes p ! j"
        "corrected env p p1 l"
      by blast
    have same_r: "\<forall>j \<in> set (indices r). nodes p1 ! j = nodes p ! j"
      using p1(5) disj by auto
    have tr1: "tree_at (nodes p1) r" using node_cong(1) [OF same_r p1(1)] tr by simp
    have cr1: "counts_ok (nodes p1) r" using counts_cong [OF same_r p1(1)] cr by simp
    from PNode.IH(2) [OF tr1 dr cr1 hr, of "Some i"] obtain p' where
      c2: "BKE_pbvh_bmesh_corect_tree env k p1 (root_ix r) (Some i) = Inr p'"
      and p': "length (nodes p') = length (nodes p1)" "leaf_limit p' = leaf_limit p1"
        "vert_co (bm p') = vert_co (bm p1)" "face_verts (bm p') = face_verts (bm p1)"
        "\<forall>j. j \<notin> set (indices r) \<longrightarrow> nodes p' ! j = nodes p1 ! j"
        "corrected env p1 p' r"
      by blast
    have res: "BKE_pbvh_bmesh_corect_tree env fuel p (root_ix (PNode i l r)) par = Inr p'"
      using i co rr nsmall c1 c2 by (auto simp: k Let_def)
    have frame: "\<forall>j. j \<notin> set (indices l) \<longrightarrow> j \<notin> set (indices r) \<longrightarrow> nodes p' ! j = nodes p ! j"
      using p1(5) p'(5) by simp
    have eq_l: "\<forall>j \<in> set (indices l). nodes p' ! j = nodes p1 ! j"
      using p'(5) disj by auto
    have refl_l: "\<forall>j \<in> set (indices l). same_shape (nodes p ! j) (nodes p ! j)"
      by (simp add: same_shape_refl)
    have sh_r: "\<forall>j \<in> set (indices r). same_shape (nodes p ! j) (nodes p1 ! j)"
      using same_r by (simp add: same_shape_refl)
    have refl_r: "\<forall>j \<in> set (indices r). nodes p' ! j = nodes p' ! j" by simp
    have okl: "corrected env p p' l"
      using corrected_cong [OF refl_l refl refl refl refl eq_l, of env] p1(6) by simp
    have okr: "corrected env p p' r"
      using corrected_cong [OF sh_r p1(1) [symmetric] p1(2) [symmetric] p1(3) [symmetric]
              p1(4) [symmetric] refl_r, of env] p'(6)
      by simp
    have ni: "nodes p' ! i = nodes p ! i" using frame il ir by simp
    from res p1(1,2,3,4) p'(1,2,3,4) frame okl okr ni False show ?thesis by auto
  qed
qed

lemma subtree_root_in_indices: "S \<in> set (subtrees T) \<Longrightarrow> root_ix S \<in> set (indices T)"
  by (induction T) (auto simp: root_ix_in_indices)

lemma corrected_subtrees:
  assumes "corrected env p p' T" "S \<in> set (subtrees T)" "is_internal S" "root_ix S \<noteq> 0"
    "2 * subtree_faces (nodes p) S < leaf_limit p"
  shows "merged_leaf env p p' S
       \<or> (PBVH_Delete \<in> flag (nodes p' ! root_ix S)
          \<and> (\<exists>A \<in> set (subtrees T). root_ix A \<noteq> 0 \<and> root_ix S \<in> set (below A)
                \<and> merged_leaf env p p' A))"
  using assms
proof (induction T)
  case (PLeaf i)
  then show ?case by (cases S) auto
next
  case (PNode i l r)
  show ?case
  proof (cases "S = PNode i l r")
    case True
    with PNode.prems show ?thesis by simp
  next
    case ne: False
    then have sub: "S \<in> set (subtrees l) \<or> S \<in> set (subtrees r)" using PNode.prems(2) by auto
    show ?thesis
    proof (cases "2 * subtree_faces (nodes p) (PNode i l r) < leaf_limit p \<and> i \<noteq> 0")
      case True
      with PNode.prems(1) have m: "merged_leaf env p p' (PNode i l r)" by simp
      from sub have b: "root_ix S \<in> set (below (PNode i l r))"
        using subtree_root_in_indices by auto
      with m have "PBVH_Delete \<in> flag (nodes p' ! root_ix S)"
        by (simp add: merged_leaf_def Let_def list_all_iff)
      with m b True show ?thesis by auto
    next
      case False
      with PNode.prems(1) have c: "corrected env p p' l" "corrected env p p' r" by auto
      from sub show ?thesis
      proof
        assume s: "S \<in> set (subtrees l)"
        from PNode.IH(1) [OF c(1) s PNode.prems(3,4,5)] show ?thesis by auto
      next
        assume s: "S \<in> set (subtrees r)"
        from PNode.IH(2) [OF c(2) s PNode.prems(3,4,5)] show ?thesis by auto
      qed
    qed
  qed
qed

text \<open>Claim C4. On a node array that stores a tree rooted at index 0, the merge pass of
  \<^verbatim>\<open>pbvh_bmesh_join_nodes\<close> (the count of the subtree faces followed by
  \<^verbatim>\<open>BKE_pbvh_bmesh_corect_tree\<close> from the root) returns, and every internal node other than the
  root whose subtree has fewer faces than half the leaf limit ends in a single merged leaf:
  either the node itself has become that leaf (it holds all faces and unique vertices of the
  leaves of its subtree, its box is recomputed from its vertices, it is flagged as a leaf
  with all update flags, and all nodes below it are marked for deletion), or it is marked for
  deletion below an ancestor other than the root that has become such a leaf. The root keeps
  its flags and its child offset: it is neither turned into a leaf nor marked for
  deletion.\<close>

theorem join_nodes_merges_small_subtrees:
  assumes "tree_at (nodes pbvh) T" "root_ix T = 0" "distinct (indices T)" "depth_of T < fuel"
  shows "\<exists>p'. pbvh_bmesh_join_nodes_merge env fuel pbvh = Inr p'
     \<and> length (nodes p') = length (nodes pbvh)
     \<and> flag (nodes p' ! 0) = flag (nodes pbvh ! 0)
     \<and> children_offset (nodes p' ! 0) = children_offset (nodes pbvh ! 0)
     \<and> (\<forall>S \<in> set (subtrees T).
           is_internal S \<and> root_ix S \<noteq> 0 \<and> 2 * subtree_faces (nodes pbvh) S < leaf_limit pbvh
           \<longrightarrow> merged_leaf env pbvh p' S
               \<or> (PBVH_Delete \<in> flag (nodes p' ! root_ix S)
                  \<and> (\<exists>A \<in> set (subtrees T). root_ix A \<noteq> 0 \<and> root_ix S \<in> set (below A)
                        \<and> merged_leaf env pbvh p' A)))"
proof (cases "length (nodes pbvh) < 2")
  case True
  have "\<not> is_internal T"
  proof
    assume "is_internal T"
    then obtain i l r where T: "T = PNode i l r" by (cases T) auto
    with assms(1) have "0 < root_ix l" "root_ix r = root_ix l + 1" "tree_at (nodes pbvh) r"
      by auto
    with tree_at_root_lt [of "nodes pbvh" r] True show False by simp
  qed
  then obtain i where "T = PLeaf i" by (cases T) auto
  with True show ?thesis by (simp add: pbvh_bmesh_join_nodes_merge_def)
next
  case False
  from count_subtree_spec [OF assms(1,3,4)] assms(2) obtain p1 where
    c: "pbvh_count_subtree_verts fuel pbvh 0 = Inr (p1, subtree_faces (nodes pbvh) T)"
    and p1: "length (nodes p1) = length (nodes pbvh)" "leaf_limit p1 = leaf_limit pbvh"
      "bm p1 = bm pbvh" "\<forall>j. same_shape (nodes p1 ! j) (nodes pbvh ! j)"
      "counts_ok (nodes p1) T"
    by auto
  have sh: "\<forall>j \<in> set (indices T). same_shape (nodes p1 ! j) (nodes pbvh ! j)"
    using p1(4) by simp
  have t1: "tree_at (nodes p1) T" using shape_cong(1) [OF sh p1(1)] assms(1) by simp
  from corect_tree_spec [OF t1 assms(3) p1(5) assms(4), of env None] assms(2) obtain p' where
    r: "BKE_pbvh_bmesh_corect_tree env fuel p1 0 None = Inr p'"
    and p': "length (nodes p') = length (nodes p1)" "nodes p' ! 0 = nodes p1 ! 0"
      "corrected env p1 p' T"
    by auto
  have refl_T: "\<forall>j \<in> set (indices T). nodes p' ! j = nodes p' ! j" by simp
  have ok: "corrected env pbvh p' T"
    using corrected_cong [OF sh p1(1,2) _ _ refl_T, of env] p1(3) p'(3) by simp
  have res: "pbvh_bmesh_join_nodes_merge env fuel pbvh = Inr p'"
    using False c r by (simp add: pbvh_bmesh_join_nodes_merge_def)
  have root: "flag (nodes p' ! 0) = flag (nodes pbvh ! 0)"
    "children_offset (nodes p' ! 0) = children_offset (nodes pbvh ! 0)"
    using p'(2) p1(4) by (auto simp: same_shape_def)
  from res p'(1) p1(1) root corrected_subtrees [OF ok] show ?thesis by auto
qed

theorem join_nodes_merges_small_subtrees_witness:
  "\<exists>p'. pbvh_bmesh_join_nodes_merge example_pbvh_env 3 example_tree_pbvh = Inr p'
     \<and> flag (nodes p' ! 0) = {}
     \<and> merged_leaf example_pbvh_env example_tree_pbvh p' (PNode 1 (PLeaf 3) (PLeaf 4))"
proof -
  have h: "tree_at (nodes example_tree_pbvh) example_tree" "root_ix example_tree = 0"
    "distinct (indices example_tree)" "depth_of example_tree < 3"
    by (simp_all add: example_tree_def example_tree_pbvh_def Let_def)
  have small: "2 * subtree_faces (nodes example_tree_pbvh) (PNode 1 (PLeaf 3) (PLeaf 4))
                 < leaf_limit example_tree_pbvh"
    by (simp add: example_tree_pbvh_def Let_def)
  have root: "flag (nodes example_tree_pbvh ! 0) = {}"
    by (simp add: example_tree_pbvh_def Let_def)
  from join_nodes_merges_small_subtrees [OF h, of example_pbvh_env] small root
  show ?thesis
    by (auto simp: example_tree_def)
qed

end
